theory Spec2Isabelle
  imports Complex_Main "HOL-Library.Sublist"
begin

section \<open>Python values\<close>

text \<open>
  The rank and filter arguments of \<^verbatim>\<open>Search.query\<close> are loosely typed Python
  values.  A dictionary is an association list in insertion order (the order in which
  \<^verbatim>\<open>items()\<close> and \<^verbatim>\<open>**kwargs\<close> enumerate it); a genuine dictionary has
  pairwise distinct keys, \<open>distinct (map fst kvs)\<close>.  Keys are strings, as in the
  JSON-like items the client receives.  A \<open>char\<close> stands for one code point of a
  \<^verbatim>\<open>str\<close> and for one byte of a \<^verbatim>\<open>bytes\<close> object.
\<close>

datatype pyval =
    PyNone
  | PyBool bool
  | PyInt int
  | PyFloat real
  | PyStr string
  | PyBytes string
  | PyList "pyval list"
  | PyDict "(string \<times> pyval) list"

datatype pytype = T_int | T_float | T_str | T_bytes | T_dict | T_list

text \<open>
  \<^verbatim>\<open>isinstance(v, t)\<close>.  In Python \<^verbatim>\<open>bool\<close> is a subclass of \<^verbatim>\<open>int\<close>;
  releases of the \<^verbatim>\<open>schema\<close> package differ in whether the type check for
  \<^verbatim>\<open>int\<close> lets a \<^verbatim>\<open>bool\<close> through, so the flag \<open>bool_as_int\<close> is a parameter
  of the validator.
\<close>

fun isinstance :: "pyval \<Rightarrow> pytype \<Rightarrow> bool" where
  "isinstance (PyBool b) T_int = True"
| "isinstance (PyInt i) T_int = True"
| "isinstance (PyFloat r) T_float = True"
| "isinstance (PyStr s) T_str = True"
| "isinstance (PyBytes s) T_bytes = True"
| "isinstance (PyDict kvs) T_dict = True"
| "isinstance (PyList xs) T_list = True"
| "isinstance _ _ = False"

fun is_bool :: "pyval \<Rightarrow> bool" where
  "is_bool (PyBool b) = True"
| "is_bool _ = False"

text \<open>\<^verbatim>\<open>len(v)\<close>; \<open>None\<close> is the \<^verbatim>\<open>TypeError\<close> of an object without length.\<close>

fun py_len :: "pyval \<Rightarrow> nat option" where
  "py_len (PyStr s) = Some (length s)"
| "py_len (PyBytes s) = Some (length s)"
| "py_len (PyList xs) = Some (length xs)"
| "py_len (PyDict kvs) = Some (length kvs)"
| "py_len _ = None"

text \<open>\<^verbatim>\<open>iter(v)\<close>: the elements a \<^verbatim>\<open>for\<close> loop sees; \<open>None\<close> is the \<^verbatim>\<open>TypeError\<close>.\<close>

fun py_iter :: "pyval \<Rightarrow> pyval list option" where
  "py_iter (PyList xs) = Some xs"
| "py_iter (PyStr s) = Some (map (\<lambda>c. PyStr [c]) s)"
| "py_iter (PyBytes s) = Some (map (\<lambda>c. PyInt (of_char c)) s)"
| "py_iter (PyDict kvs) = Some (map (\<lambda>kv. PyStr (fst kv)) kvs)"
| "py_iter _ = None"

text \<open>Truth value of an object, as \<^verbatim>\<open>if v:\<close> tests it.\<close>

fun truthy :: "pyval \<Rightarrow> bool" where
  "truthy PyNone = False"
| "truthy (PyBool b) = b"
| "truthy (PyInt i) = (i \<noteq> 0)"
| "truthy (PyFloat r) = (r \<noteq> 0)"
| "truthy (PyStr s) = (s \<noteq> [])"
| "truthy (PyBytes s) = (s \<noteq> [])"
| "truthy (PyList xs) = (xs \<noteq> [])"
| "truthy (PyDict kvs) = (kvs \<noteq> [])"

text \<open>\<^verbatim>\<open>v == n\<close> for an integer literal \<open>n\<close>.\<close>

fun py_eq_int :: "pyval \<Rightarrow> int \<Rightarrow> bool" where
  "py_eq_int (PyInt i) n = (i = n)"
| "py_eq_int (PyBool b) n = ((if b then 1 else 0) = n)"
| "py_eq_int (PyFloat r) n = (r = of_int n)"
| "py_eq_int _ n = False"

text \<open>
  \<^verbatim>\<open>all(f(x) for x in xs)\<close>: stops at the first false element; an exception in
  \<open>f\<close> (\<open>None\<close>) propagates.
\<close>

fun py_all :: "('a \<Rightarrow> bool option) \<Rightarrow> 'a list \<Rightarrow> bool option" where
  "py_all f [] = Some True"
| "py_all f (x # xs) =
     (case f x of None \<Rightarrow> None | Some False \<Rightarrow> Some False | Some True \<Rightarrow> py_all f xs)"

section \<open>Regular expressions of the \<^verbatim>\<open>re\<close> module\<close>

text \<open>
  The body of a pattern is a regular expression over character classes; a class is a
  list of inclusive code-point ranges.  Matching is by derivatives.
\<close>

datatype rexp =
    Nul
  | Eps
  | Cls "(char \<times> char) list"
  | Seq rexp rexp
  | Alt rexp rexp
  | Star rexp

definition in_range :: "char \<Rightarrow> char \<times> char \<Rightarrow> bool" where
  "in_range c r = ((of_char (fst r) :: nat) \<le> of_char c \<and> (of_char c :: nat) \<le> of_char (snd r))"

definition in_cls :: "(char \<times> char) list \<Rightarrow> char \<Rightarrow> bool" where
  "in_cls rs c = list_ex (in_range c) rs"

definition Lit :: "char \<Rightarrow> rexp" where
  "Lit c = Cls [(c, c)]"

definition Plus :: "rexp \<Rightarrow> rexp" where
  "Plus r = Seq r (Star r)"

definition Opt :: "rexp \<Rightarrow> rexp" where
  "Opt r = Alt r Eps"

fun Str :: "string \<Rightarrow> rexp" where
  "Str [] = Eps"
| "Str (c # cs) = Seq (Lit c) (Str cs)"

fun nullable :: "rexp \<Rightarrow> bool" where
  "nullable Nul = False"
| "nullable Eps = True"
| "nullable (Cls rs) = False"
| "nullable (Seq r s) = (nullable r \<and> nullable s)"
| "nullable (Alt r s) = (nullable r \<or> nullable s)"
| "nullable (Star r) = True"

fun deriv :: "char \<Rightarrow> rexp \<Rightarrow> rexp" where
  "deriv c Nul = Nul"
| "deriv c Eps = Nul"
| "deriv c (Cls rs) = (if in_cls rs c then Eps else Nul)"
| "deriv c (Seq r s) =
     (if nullable r then Alt (Seq (deriv c r) s) (deriv c s) else Seq (deriv c r) s)"
| "deriv c (Alt r s) = Alt (deriv c r) (deriv c s)"
| "deriv c (Star r) = Seq (deriv c r) (Star r)"

fun matches :: "rexp \<Rightarrow> string \<Rightarrow> bool" where
  "matches r [] = nullable r"
| "matches r (c # cs) = matches (deriv c r) cs"

text \<open>
  A compiled pattern: \<^verbatim>\<open>^body\<close> or \<^verbatim>\<open>^body$\<close> (no flags).  \<^verbatim>\<open>search\<close> succeeds
  for \<^verbatim>\<open>^body\<close> when some prefix of the string matches the body.  Without
  \<^verbatim>\<open>MULTILINE\<close>, \<^verbatim>\<open>$\<close> matches at the end of the string and also just before a
  newline that is the last character of the string.
\<close>

datatype pattern = Bol rexp | Bol_Eol rexp

definition newline :: char where
  "newline = CHR 0x0A"

fun re_search :: "pattern \<Rightarrow> string \<Rightarrow> bool" where
  "re_search (Bol r) s = list_ex (matches r) (prefixes s)"
| "re_search (Bol_Eol r) s =
     (matches r s \<or> (s \<noteq> [] \<and> last s = newline \<and> matches r (butlast s)))"

section \<open>The validator of the \<^verbatim>\<open>schema\<close> package\<close>

text \<open>
  The part of the third-party \<^verbatim>\<open>schema\<close> package that \<^verbatim>\<open>get_schema\<close> uses.
  A schema is a type (\<^verbatim>\<open>int\<close>, \<^verbatim>\<open>str\<close>, ...), a callable (\<^verbatim>\<open>len\<close>, a lambda;
  \<open>None\<close> is an exception raised by the call), a \<^verbatim>\<open>Regex\<close>, an \<^verbatim>\<open>And\<close>, a
  dictionary of key schemas (a plain key is required, an \<^verbatim>\<open>Optional\<close> one is not) or
  a list of alternatives for the elements of a list.  Only the class of the error raised
  is kept, not its message.
\<close>

datatype schema_error =
    SchemaError
  | SchemaUnexpectedTypeError
  | SchemaMissingKeyError
  | SchemaWrongKeyError

datatype skey = Key string | Optional string

fun skey_name :: "skey \<Rightarrow> string" where
  "skey_name (Key k) = k"
| "skey_name (Optional k) = k"

fun is_optional :: "skey \<Rightarrow> bool" where
  "is_optional (Key k) = False"
| "is_optional (Optional k) = True"

datatype schema =
    Type pytype
  | Callable "pyval \<Rightarrow> pyval option"
  | Regex pattern
  | And "schema list"
  | Dict "(skey \<times> schema) list"
  | Iterable "schema list"

text \<open>What the dictionary loop finds for one item of the data.\<close>

datatype key_result = Unmatched | Invalid | Covered skey

fun is_covered :: "key_result \<Rightarrow> bool" where
  "is_covered (Covered sk) = True"
| "is_covered _ = False"

text \<open>
  \<open>validate\<close> is \<^verbatim>\<open>Schema(s).validate(v)\<close>: \<open>Inr ()\<close> when the data is accepted, \<open>Inl\<close>
  the error raised otherwise.
  \<^item> A type accepts its instances; a \<^verbatim>\<open>bool\<close> passes for \<^verbatim>\<open>int\<close> only with
    \<open>bool_as_int\<close>.
  \<^item> A callable accepts when it returns a true value; an exception in it is a
    \<^verbatim>\<open>SchemaError\<close>.
  \<^item> \<^verbatim>\<open>Regex\<close> searches the string; data that is no string is a \<^verbatim>\<open>SchemaError\<close>.
  \<^item> \<^verbatim>\<open>And\<close> validates against each argument in turn (\<open>validate_and\<close>) and stops at
    the first error.
  \<^item> A dictionary schema wants a \<^verbatim>\<open>dict\<close>.  Each item of the data is matched with
    the first schema key equal to its key, and its value validated against that key's
    schema (\<open>match_key\<close>); an invalid value raises at once.  Then every required key
    must be covered, and the validated items must be as many as the data's.
  \<^item> A list schema wants a \<^verbatim>\<open>list\<close>, each element accepted by one of the
    alternatives (\<open>validate_or\<close>).
\<close>

fun validate :: "bool \<Rightarrow> schema \<Rightarrow> pyval \<Rightarrow> schema_error + unit"
  and validate_and :: "bool \<Rightarrow> schema list \<Rightarrow> pyval \<Rightarrow> schema_error + unit"
  and validate_or :: "bool \<Rightarrow> schema list \<Rightarrow> pyval \<Rightarrow> bool"
  and match_key :: "bool \<Rightarrow> (skey \<times> schema) list \<Rightarrow> string \<Rightarrow> pyval \<Rightarrow> key_result"
where
  "validate bool_as_int (Type t) v =
     (if isinstance v t \<and> \<not> (is_bool v \<and> t = T_int \<and> \<not> bool_as_int) then Inr ()
      else Inl SchemaUnexpectedTypeError)"
| "validate bool_as_int (Callable f) v =
     (case f v of
        None \<Rightarrow> Inl SchemaError
      | Some r \<Rightarrow> if truthy r then Inr () else Inl SchemaError)"
| "validate bool_as_int (Regex p) v =
     (case v of
        PyStr s \<Rightarrow> if re_search p s then Inr () else Inl SchemaError
      | _ \<Rightarrow> Inl SchemaError)"
| "validate bool_as_int (And ss) v = validate_and bool_as_int ss v"
| "validate bool_as_int (Dict entries) v =
     (case v of
        PyDict kvs \<Rightarrow>
          (let results = map (\<lambda>kv. match_key bool_as_int entries (fst kv) (snd kv)) kvs;
               coverage = [sk. Covered sk \<leftarrow> results];
               new_keys = [fst kv. kv \<leftarrow> kvs, is_covered (match_key bool_as_int entries (fst kv) (snd kv))];
               required = [sk. sk \<leftarrow> map fst entries, \<not> is_optional sk]
           in if Invalid \<in> set results then Inl SchemaError
              else if \<not> set required \<subseteq> set coverage then Inl SchemaMissingKeyError
              else if length (remdups new_keys) \<noteq> length kvs then Inl SchemaWrongKeyError
              else Inr ())
      | _ \<Rightarrow> Inl SchemaUnexpectedTypeError)"
| "validate bool_as_int (Iterable ss) v =
     (case v of
        PyList xs \<Rightarrow>
          if list_all (\<lambda>x. validate_or bool_as_int ss x) xs then Inr () else Inl SchemaError
      | _ \<Rightarrow> Inl SchemaUnexpectedTypeError)"
| "validate_and bool_as_int [] v = Inr ()"
| "validate_and bool_as_int (s # ss) v =
     (case validate bool_as_int s v of
        Inl e \<Rightarrow> Inl e
      | Inr u \<Rightarrow> validate_and bool_as_int ss v)"
| "validate_or bool_as_int [] v = False"
| "validate_or bool_as_int (s # ss) v =
     (case validate bool_as_int s v of
        Inr u \<Rightarrow> True
      | Inl e \<Rightarrow> validate_or bool_as_int ss v)"
| "match_key bool_as_int [] k v = Unmatched"
| "match_key bool_as_int (e # entries) k v =
     (if skey_name (fst e) = k
      then (case validate bool_as_int (snd e) v of Inl err \<Rightarrow> Invalid | Inr u \<Rightarrow> Covered (fst e))
      else match_key bool_as_int entries k v)"

text \<open>\<^verbatim>\<open>Schema(s).is_valid(v)\<close>: whether \<^verbatim>\<open>validate\<close> raises no \<^verbatim>\<open>SchemaError\<close>.\<close>

definition is_valid :: "bool \<Rightarrow> schema \<Rightarrow> pyval \<Rightarrow> bool" where
  "is_valid bool_as_int s v = (case validate bool_as_int s v of Inl e \<Rightarrow> False | Inr u \<Rightarrow> True)"

section \<open>The schema for rank and filter (\<^verbatim>\<open>clarifai/schema/search.py\<close>)\<close>

text \<open>The two patterns: \<^verbatim>\<open>^[0-9A-Za-z]+([-_][0-9A-Za-z]+)*$\<close> and \<^verbatim>\<open>^https?://\<close>.\<close>

definition alnum :: "(char \<times> char) list" where
  "alnum = [(CHR ''0'', CHR ''9''), (CHR ''A'', CHR ''Z''), (CHR ''a'', CHR ''z'')]"

definition dash_underscore :: "(char \<times> char) list" where
  "dash_underscore = [(CHR ''-'', CHR ''-''), (CHR ''_'', CHR ''_'')]"

definition name_body :: rexp where
  "name_body = Seq (Plus (Cls alnum)) (Star (Seq (Cls dash_underscore) (Plus (Cls alnum))))"

definition name_pattern :: pattern where
  "name_pattern = Bol_Eol name_body"

definition url_pattern :: pattern where
  "url_pattern = Bol (Seq (Str ''http'') (Seq (Opt (Lit CHR ''s'')) (Str ''://'')))"

text \<open>The callables: \<^verbatim>\<open>len\<close> and \<^verbatim>\<open>lambda x: x in [0, 1]\<close>.\<close>

definition len :: "pyval \<Rightarrow> pyval option" where
  "len v = map_option (\<lambda>n. PyInt (int n)) (py_len v)"

definition in_0_1 :: "pyval \<Rightarrow> pyval option" where
  "in_0_1 x = Some (PyBool (py_eq_int x 0 \<or> py_eq_int x 1))"

text \<open>Schema for a single concept.\<close>

definition concept_schema :: schema where
  "concept_schema = Dict [
     (Optional ''value'', And [Type T_int, Callable in_0_1]),
     (Optional ''id'', And [Type T_str, Callable len]),
     (Optional ''language'', And [Type T_str, Callable len]),
     (Optional ''name'', And [Type T_str, Callable len, Regex name_pattern])]"

text \<open>
  \<^verbatim>\<open>lambda x: all(concept_schema.is_valid(item) and len(item) > 0 for item in x)\<close>:
  \<^verbatim>\<open>and\<close> evaluates \<^verbatim>\<open>len(item)\<close> only for a valid item.
\<close>

definition concept_item_ok :: "bool \<Rightarrow> pyval \<Rightarrow> bool option" where
  "concept_item_ok bool_as_int item =
     (if is_valid bool_as_int concept_schema item
      then map_option (\<lambda>n. n > 0) (py_len item)
      else Some False)"

definition all_concepts_ok :: "bool \<Rightarrow> pyval \<Rightarrow> pyval option" where
  "all_concepts_ok bool_as_int x =
     (case py_iter x of
        None \<Rightarrow> None
      | Some items \<Rightarrow> map_option PyBool (py_all (concept_item_ok bool_as_int) items))"

text \<open>
  The schemas of the values of \<^verbatim>\<open>concepts\<close> and \<^verbatim>\<open>geo_point\<close>, written in place in
  the source.
\<close>

definition concepts_schema :: "bool \<Rightarrow> schema" where
  "concepts_schema bool_as_int = And [Type T_list, Callable (all_concepts_ok bool_as_int)]"

definition geo_point_schema :: schema where
  "geo_point_schema = Dict [
     (Key ''longitude'', Type T_float),
     (Key ''latitude'', Type T_float),
     (Key ''geo_limit'', Type T_int)]"

text \<open>Schema for a rank or filter item.\<close>

definition rank_filter_item_schema :: "bool \<Rightarrow> schema" where
  "rank_filter_item_schema bool_as_int = Dict [
     (Optional ''image_url'', And [Type T_str, Regex url_pattern]),
     (Optional ''text_raw'', And [Type T_str, Callable len]),
     (Optional ''metadata'', Type T_dict),
     (Optional ''image_bytes'', Type T_bytes),
     (Optional ''geo_point'', geo_point_schema),
     (Optional ''concepts'', concepts_schema bool_as_int)]"

text \<open>Schema for rank and filter args.\<close>

definition get_schema :: "bool \<Rightarrow> schema" where
  "get_schema bool_as_int = Iterable [rank_filter_item_schema bool_as_int]"

section \<open>The search client (\<^verbatim>\<open>clarifai/client/search.py\<close>)\<close>

subsection \<open>Protocol messages and exceptions\<close>

text \<open>
  The generated protocol classes (\<^verbatim>\<open>resources_pb2\<close>, \<^verbatim>\<open>service_pb2\<close>) and the
  \<^verbatim>\<open>Inputs\<close> helper are outside the repository: a message is the record of the fields
  the client sets, a helper's result is a constructor holding its argument, and their
  calls are taken to succeed, the constructor of the pagination apart, whose range check
  is modelled below.  A field holds the value as given, with no rounding to the width
  of the field.  An unset message field is \<open>None\<close>.
\<close>

datatype image_proto = Image_from_bytes pyval | Image_from_url pyval

datatype text_proto = Text_from_utf8_bytes string

datatype concept_proto = Concept "(string \<times> pyval) list"

record geo_point_proto =
  longitude :: pyval
  latitude :: pyval

record geo_limit_proto =
  limit_type :: string
  limit_value :: pyval

record geo_proto =
  geo_point :: geo_point_proto
  geo_limit :: geo_limit_proto

record data_proto =
  image :: "image_proto option"
  text_field :: "text_proto option"
  concepts :: "concept_proto list"
  metadata :: "pyval option"
  geo :: "geo_proto option"

definition Data :: data_proto where
  "Data = \<lparr>image = None, text_field = None, concepts = [], metadata = None, geo = None\<rparr>"

datatype annotation = Annotation "data_proto option"

datatype rank = Rank annotation

datatype filter_proto = Filter annotation

record query_proto =
  ranks :: "rank list"
  filters :: "filter_proto list"

record search_proto =
  search_query :: query_proto
  metric :: string

record pagination =
  page :: nat
  per_page :: int

record request =
  user_app_id :: "string \<times> string"
  searches :: "search_proto list"
  request_pagination :: pagination

text \<open>
  A response of the search endpoint: its status code and the dictionary that
  \<^verbatim>\<open>MessageToDict\<close> decodes it to.  \<open>SUCCESS\<close> is \<^verbatim>\<open>status_code_pb2.SUCCESS\<close>, a
  constant of the generated protocol code.
\<close>

record response =
  status_code :: nat
  dict_response :: "(string \<times> pyval) list"

definition SUCCESS :: nat where
  "SUCCESS = 10000"

text \<open>
  \<^verbatim>\<open>UserError\<close> carries its message and, when raised while a \<^verbatim>\<open>SchemaError\<close> is
  handled, that error, which the message quotes.
\<close>

datatype exn =
    UserError string "schema_error option"
  | Listing_failed response
  | TypeError
  | KeyError string
  | ValueError

subsection \<open>The session\<close>

record search =
  user_id :: string
  app_id :: string
  metric_distance :: string
  data_proto :: data_proto
  default_page_size :: int

definition Search_init :: "string \<Rightarrow> string \<Rightarrow> int \<Rightarrow> string \<Rightarrow> exn + search" where
  "Search_init uid aid top_k metric_arg =
     (if metric_arg \<notin> set [''cosine'', ''euclidean'']
      then Inl (UserError ''Metric should be either cosine or euclidean'' None)
      else (case map_of [(''cosine'', ''COSINE_DISTANCE''), (''euclidean'', ''EUCLIDEAN_DISTANCE'')]
                  metric_arg of
              None \<Rightarrow> Inl (KeyError metric_arg)
            | Some d \<Rightarrow>
                Inr \<lparr>user_id = uid, app_id = aid, metric_distance = d, data_proto = Data,
                     default_page_size = top_k\<rparr>))"

subsection \<open>Building an annotation\<close>

definition get_geo_point_proto :: "pyval \<Rightarrow> pyval \<Rightarrow> pyval \<Rightarrow> geo_proto" where
  "get_geo_point_proto glon glat glimit =
     \<lparr>geo_point = \<lparr>longitude = glon, latitude = glat\<rparr>,
      geo_limit = \<lparr>limit_type = ''withinKilometers'', limit_value = glimit\<rparr>\<rparr>"

text \<open>\<^verbatim>\<open>value[k]\<close> for a string \<open>k\<close>.\<close>

fun subscript :: "pyval \<Rightarrow> string \<Rightarrow> exn + pyval" where
  "subscript (PyDict kvs) k = (case map_of kvs k of None \<Rightarrow> Inl (KeyError k) | Some v \<Rightarrow> Inr v)"
| "subscript _ k = Inl TypeError"

text \<open>
  The loop over the concepts; \<^verbatim>\<open>Concept(**concept)\<close> wants a mapping.  The data
  message is changed in place, so an exception leaves the concepts added so far.
\<close>

fun add_concepts :: "data_proto \<Rightarrow> pyval list \<Rightarrow> exn option \<times> data_proto" where
  "add_concepts d [] = (None, d)"
| "add_concepts d (c # cs) =
     (case c of
        PyDict kvs \<Rightarrow> add_concepts (d\<lparr>concepts := concepts d @ [Concept kvs]\<rparr>) cs
      | _ \<Rightarrow> (Some TypeError, d))"

text \<open>One turn of the loop over \<^verbatim>\<open>kwargs.items()\<close>.\<close>

definition set_field :: "data_proto \<Rightarrow> string \<Rightarrow> pyval \<Rightarrow> exn option \<times> data_proto" where
  "set_field d key v =
     (if key = ''image_bytes'' then (None, d\<lparr>image := Some (Image_from_bytes v)\<rparr>)
      else if key = ''image_url'' then (None, d\<lparr>image := Some (Image_from_url v)\<rparr>)
      else if key = ''concepts'' then
        (case py_iter v of None \<Rightarrow> (Some TypeError, d) | Some cs \<Rightarrow> add_concepts d cs)
      else if key = ''text_raw'' then
        (case v of
           PyStr s \<Rightarrow> (None, d\<lparr>text_field := Some (Text_from_utf8_bytes s)\<rparr>)
         | _ \<Rightarrow> (Some TypeError, d))
      else if key = ''metadata'' then (None, d\<lparr>metadata := Some v\<rparr>)
      else if key = ''geo_point'' then
        (case subscript v ''longitude'' of
           Inl e \<Rightarrow> (Some e, d)
         | Inr glon \<Rightarrow>
             (case subscript v ''latitude'' of
                Inl e \<Rightarrow> (Some e, d)
              | Inr glat \<Rightarrow>
                  (case subscript v ''geo_limit'' of
                     Inl e \<Rightarrow> (Some e, d)
                   | Inr glimit \<Rightarrow> (None, d\<lparr>geo := Some (get_geo_point_proto glon glat glimit)\<rparr>))))
      else (Some (UserError (''kwargs contain key that is not supported: '' @ key) None), d))"

fun set_fields :: "data_proto \<Rightarrow> (string \<times> pyval) list \<Rightarrow> exn option \<times> data_proto" where
  "set_fields d [] = (None, d)"
| "set_fields d (kv # kwargs) =
     (case set_field d (fst kv) (snd kv) of
        (Some e, d') \<Rightarrow> (Some e, d')
      | (None, d') \<Rightarrow> set_fields d' kwargs)"

text \<open>
  \<^verbatim>\<open>_get_annot_proto(self, **kwargs)\<close>: the result, or the exception, and the session
  with its \<^verbatim>\<open>data_proto\<close> buffer as the call leaves it.
\<close>

definition get_annot_proto :: "search \<Rightarrow> (string \<times> pyval) list \<Rightarrow> (exn + annotation) \<times> search" where
  "get_annot_proto self kwargs =
     (if kwargs = [] then (Inr (Annotation None), self)
      else (case set_fields Data kwargs of
              (Some e, d) \<Rightarrow> (Inl e, self\<lparr>data_proto := d\<rparr>)
            | (None, d) \<Rightarrow> (Inr (Annotation (Some d)), self\<lparr>data_proto := d\<rparr>)))"

text \<open>The data fields of an annotation that are populated.\<close>

definition populated_fields :: "annotation \<Rightarrow> string list" where
  "populated_fields a =
     (case a of
        Annotation None \<Rightarrow> []
      | Annotation (Some d) \<Rightarrow>
          (if image d \<noteq> None then [''image''] else []) @
          (if text_field d \<noteq> None then [''text''] else []) @
          (if concepts d \<noteq> [] then [''concepts''] else []) @
          (if metadata d \<noteq> None then [''metadata''] else []) @
          (if geo d \<noteq> None then [''geo''] else []))"

subsection \<open>Pagination\<close>

text \<open>
  The search endpoint answers a request with a response.  Every request the client
  issues is appended to a trace of its network calls.
\<close>

type_synonym endpoint = "request \<Rightarrow> response"

text \<open>
  The fields \<^verbatim>\<open>page\<close> and \<^verbatim>\<open>per_page\<close> of the \<^verbatim>\<open>Pagination\<close> message are unsigned
  32-bit integers: its constructor raises \<^verbatim>\<open>ValueError\<close> for a value outside their
  range.
\<close>

definition uint32 :: "int \<Rightarrow> bool" where
  "uint32 i = (0 \<le> i \<and> i < 2 ^ 32)"

definition Pagination :: "nat \<Rightarrow> int \<Rightarrow> exn + pagination" where
  "Pagination p pp =
     (if uint32 (int p) \<and> uint32 pp then Inr \<lparr>page = p, per_page = pp\<rparr> else Inl ValueError)"

text \<open>
  \<^verbatim>\<open>list_all_pages_generator\<close> is a generator function: the call only creates the
  generator, around the session and the request data, and runs nothing.  The first
  \<^verbatim>\<open>next\<close> starts the body: it sets \<^verbatim>\<open>page\<close> to 1, builds the pagination from it and
  the session's page size, which may fail, and enters the loop.  Each \<^verbatim>\<open>next\<close> then
  runs the body up to the next \<^verbatim>\<open>yield\<close>.  The state of the running body is the
  request data, the local variable \<^verbatim>\<open>page\<close> and whether the body has ended (by
  \<^verbatim>\<open>break\<close> or by an exception).
\<close>

datatype generator = Created search "string \<times> string" "search_proto list"

definition list_all_pages_generator ::
  "search \<Rightarrow> string \<times> string \<Rightarrow> search_proto list \<Rightarrow> generator" where
  "list_all_pages_generator self uaid srchs = Created self uaid srchs"

record page_generator =
  gen_request_data :: request
  gen_page :: nat
  gen_finished :: bool

datatype step = Yield response | StopIteration | Raise exn

definition start_pages ::
  "search \<Rightarrow> string \<times> string \<Rightarrow> search_proto list \<Rightarrow> exn + page_generator" where
  "start_pages self uaid srchs =
     (case Pagination 1 (default_page_size self) of
        Inl e \<Rightarrow> Inl e
      | Inr pg \<Rightarrow>
          Inr \<lparr>gen_request_data =
                 \<lparr>user_app_id = uaid, searches = srchs, request_pagination = pg\<rparr>,
               gen_page = 1,
               gen_finished = False\<rparr>)"

text \<open>
  The request of one turn of the loop: the request data with the page number set,
  \<^verbatim>\<open>request_data['pagination'].page = page\<close>, passed to \<^verbatim>\<open>proto_message\<close>.  The page
  number is taken to fit the field; the properties of whole listings below are stated
  for page numbers in its range.
\<close>

definition page_request :: "request \<Rightarrow> nat \<Rightarrow> request" where
  "page_request rd p = rd\<lparr>request_pagination := (request_pagination rd)\<lparr>page := p\<rparr>\<rparr>"

text \<open>
  One \<^verbatim>\<open>next\<close> on the running generator: one turn of the \<^verbatim>\<open>while True\<close> loop.  A
  finished generator raises \<^verbatim>\<open>StopIteration\<close> and does nothing else.
\<close>

definition gen_next ::
  "endpoint \<Rightarrow> page_generator \<times> request list \<Rightarrow> step \<times> page_generator \<times> request list" where
  "gen_next endpoint st =
     (let g = fst st; trace = snd st in
      if gen_finished g then (StopIteration, g, trace)
      else
        (let req = page_request (gen_request_data g) (gen_page g);
             resp = endpoint req;
             trace' = trace @ [req]
         in if status_code resp \<noteq> SUCCESS
            then (Raise (Listing_failed resp), g\<lparr>gen_request_data := req, gen_finished := True\<rparr>, trace')
            else if ''hits'' \<notin> set (map fst (dict_response resp))
            then (StopIteration, g\<lparr>gen_request_data := req, gen_finished := True\<rparr>, trace')
            else (Yield resp, g\<lparr>gen_request_data := req, gen_page := gen_page g + 1\<rparr>, trace')))"

text \<open>
  A caller's \<^verbatim>\<open>for\<close> loop over the running generator: the pages yielded, the
  exception that ended the loop if any, and the trace.  It need not end: the result is
  \<open>None\<close> then.
\<close>

partial_function (option) consume ::
  "endpoint \<Rightarrow> page_generator \<times> request list \<Rightarrow> response list \<Rightarrow>
     (response list \<times> exn option \<times> request list) option" where
  "consume endpoint st pages =
     (case fst (gen_next endpoint st) of
        Yield resp \<Rightarrow> consume endpoint (snd (gen_next endpoint st)) (pages @ [resp])
      | StopIteration \<Rightarrow> Some (pages, None, snd (snd (gen_next endpoint st)))
      | Raise e \<Rightarrow> Some (pages, Some e, snd (snd (gen_next endpoint st))))"

text \<open>
  A caller's \<^verbatim>\<open>for\<close> loop over a generator just created: the first \<^verbatim>\<open>next\<close> starts
  the body; when that fails the loop ends with the exception, no page and no request.
\<close>

definition consume_generator ::
  "endpoint \<Rightarrow> generator \<times> request list \<Rightarrow> (response list \<times> exn option \<times> request list) option" where
  "consume_generator endpoint st =
     (case fst st of
        Created self uaid srchs \<Rightarrow>
          (case start_pages self uaid srchs of
             Inl e \<Rightarrow> Some ([], Some e, snd st)
           | Inr g \<Rightarrow> consume endpoint (g, snd st) []))"

subsection \<open>The query\<close>

text \<open>The loops \<^verbatim>\<open>for rank_dict in ranks: ...append(self._get_annot_proto(**rank_dict))\<close>.\<close>

fun get_annot_protos :: "search \<Rightarrow> pyval list \<Rightarrow> (exn + annotation list) \<times> search" where
  "get_annot_protos self [] = (Inr [], self)"
| "get_annot_protos self (item # items) =
     (case item of
        PyDict kwargs \<Rightarrow>
          (case get_annot_proto self kwargs of
             (Inl e, self') \<Rightarrow> (Inl e, self')
           | (Inr a, self') \<Rightarrow>
               (case get_annot_protos self' items of
                  (Inl e, self'') \<Rightarrow> (Inl e, self'')
                | (Inr annots, self'') \<Rightarrow> (Inr (a # annots), self'')))
      | _ \<Rightarrow> (Inl TypeError, self))"

text \<open>The default of both arguments, \<^verbatim>\<open>[{}]\<close>.\<close>

definition default_items :: pyval where
  "default_items = PyList [PyDict []]"

definition arg_or_default :: "pyval option \<Rightarrow> pyval" where
  "arg_or_default arg = (case arg of None \<Rightarrow> default_items | Some v \<Rightarrow> v)"

text \<open>
  \<^verbatim>\<open>query(self, ranks=[{}], filters=[{}])\<close>; an argument left out is \<open>None\<close>.  The
  result is the generator or the exception raised, with the session and the trace of
  requests as the call leaves them.
\<close>

definition query ::
  "bool \<Rightarrow> search \<Rightarrow> pyval option \<Rightarrow> pyval option \<Rightarrow> request list \<Rightarrow>
     (exn + generator) \<times> search \<times> request list" where
  "query bool_as_int self ranks_arg filters_arg trace =
     (let rks = arg_or_default ranks_arg;
          fls = arg_or_default filters_arg
      in case validate bool_as_int (get_schema bool_as_int) rks of
           Inl err \<Rightarrow> (Inl (UserError ''Invalid rank or filter input: '' (Some err)), self, trace)
         | Inr u \<Rightarrow>
        (case validate bool_as_int (get_schema bool_as_int) fls of
           Inl err \<Rightarrow> (Inl (UserError ''Invalid rank or filter input: '' (Some err)), self, trace)
         | Inr u' \<Rightarrow>
        (case py_iter rks of
           None \<Rightarrow> (Inl TypeError, self, trace)
         | Some rank_dicts \<Rightarrow>
        (case get_annot_protos self rank_dicts of
           (Inl e, self1) \<Rightarrow> (Inl e, self1, trace)
         | (Inr rank_annot_proto, self1) \<Rightarrow>
        (case py_iter fls of
           None \<Rightarrow> (Inl TypeError, self1, trace)
         | Some filter_dicts \<Rightarrow>
        (case get_annot_protos self1 filter_dicts of
           (Inl e, self2) \<Rightarrow> (Inl e, self2, trace)
         | (Inr filters_annot_proto, self2) \<Rightarrow>
             (Inr (list_all_pages_generator self2 (user_id self2, app_id self2)
                    [\<lparr>search_query =
                        \<lparr>ranks = map Rank rank_annot_proto,
                         filters = map Filter filters_annot_proto\<rparr>,
                      metric = metric_distance self2\<rparr>]),
              self2, trace)))))))"

subsection \<open>A session and endpoints to run the client on\<close>

text \<open>
  The session of the test suite (page size 1, Euclidean metric) with no searches in its
  requests; an endpoint whose pages 1 and 2 have hits and whose later pages have none;
  a response with a status code that is not success, and with hits; the request for a
  page, and the running generator of the session once started.
\<close>

definition example_session :: search where
  "example_session =
     \<lparr>user_id = ''user'', app_id = ''app'', metric_distance = ''EUCLIDEAN_DISTANCE'',
      data_proto = Data, default_page_size = 1\<rparr>"

definition example_page :: "bool \<Rightarrow> response" where
  "example_page with_hits =
     \<lparr>status_code = SUCCESS,
      dict_response =
        (if with_hits then [(''status'', PyDict []), (''hits'', PyList [PyDict []])]
         else [(''status'', PyDict [])])\<rparr>"

definition example_endpoint :: endpoint where
  "example_endpoint = (\<lambda>req. example_page (page (request_pagination req) \<le> 2))"

definition example_failure :: response where
  "example_failure = \<lparr>status_code = 0, dict_response = [(''status'', PyDict []), (''hits'', PyList [])]\<rparr>"

definition example_request :: "nat \<Rightarrow> request" where
  "example_request p =
     \<lparr>user_app_id = (''user'', ''app''), searches = [],
      request_pagination = \<lparr>page = p, per_page = 1\<rparr>\<rparr>"

definition example_generator :: page_generator where
  "example_generator =
     \<lparr>gen_request_data = example_request 1, gen_page = 1, gen_finished = False\<rparr>"

section \<open>The query items of the specification\<close>

text \<open>
  The items that the specification of the validator describes, in its words and
  independently of the schema above, to compare the schema with: \<open>spec_query_item\<close> holds
  of a dictionary whose keys are recognized and whose values conform.
  \<^item> A concept name is non-empty, alphanumeric segments joined by single dashes or
    underscores: cut at every dash and underscore, it leaves non-empty alphanumeric
    segments only.
  \<^item> An image URL starts with the scheme prefix \<^verbatim>\<open>http://\<close> or \<^verbatim>\<open>https://\<close>.
  \<^item> A concept is a non-empty object with fields among \<^verbatim>\<open>name\<close>, \<^verbatim>\<open>id\<close> and
    \<^verbatim>\<open>language\<close> (non-empty strings) and \<^verbatim>\<open>value\<close> (the integer 0 or 1).
  \<^item> A geo point has exactly the fields \<^verbatim>\<open>longitude\<close> and \<^verbatim>\<open>latitude\<close>, floating
    point, and \<^verbatim>\<open>geo_limit\<close>, an integer.
  \<^item> \<^verbatim>\<open>text_raw\<close> is a non-empty string, \<^verbatim>\<open>metadata\<close> a map, \<^verbatim>\<open>image_bytes\<close> a
    binary payload, \<^verbatim>\<open>concepts\<close> a non-empty list of concepts.
\<close>

fun segments :: "string \<Rightarrow> string list" where
  "segments [] = [[]]"
| "segments (c # cs) =
     (if in_cls dash_underscore c then [] # segments cs
      else (case segments cs of [] \<Rightarrow> [[c]] | seg # segs \<Rightarrow> (c # seg) # segs))"

definition spec_name :: "string \<Rightarrow> bool" where
  "spec_name s = list_all (\<lambda>seg. seg \<noteq> [] \<and> list_all (in_cls alnum) seg) (segments s)"

definition spec_url :: "string \<Rightarrow> bool" where
  "spec_url s = (prefix ''http://'' s \<or> prefix ''https://'' s)"

fun spec_concept_field :: "string \<Rightarrow> pyval \<Rightarrow> bool" where
  "spec_concept_field k (PyStr s) =
     (k = ''name'' \<and> spec_name s \<or> k = ''id'' \<and> s \<noteq> [] \<or> k = ''language'' \<and> s \<noteq> [])"
| "spec_concept_field k (PyInt i) = (k = ''value'' \<and> (i = 0 \<or> i = 1))"
| "spec_concept_field k _ = False"

fun spec_concept :: "pyval \<Rightarrow> bool" where
  "spec_concept (PyDict kvs) =
     (kvs \<noteq> [] \<and> distinct (map fst kvs) \<and>
      list_all (\<lambda>kv. spec_concept_field (fst kv) (snd kv)) kvs)"
| "spec_concept _ = False"

fun is_float :: "pyval \<Rightarrow> bool" where
  "is_float (PyFloat r) = True"
| "is_float _ = False"

fun is_int :: "pyval \<Rightarrow> bool" where
  "is_int (PyInt i) = True"
| "is_int _ = False"

fun spec_geo_point :: "pyval \<Rightarrow> bool" where
  "spec_geo_point (PyDict kvs) =
     (distinct (map fst kvs) \<and>
      set (map fst kvs) = {''longitude'', ''latitude'', ''geo_limit''} \<and>
      list_all (\<lambda>kv. if fst kv = ''geo_limit'' then is_int (snd kv) else is_float (snd kv)) kvs)"
| "spec_geo_point _ = False"

definition recognized_keys :: "string list" where
  "recognized_keys =
     [''image_url'', ''image_bytes'', ''text_raw'', ''metadata'', ''geo_point'', ''concepts'']"

definition spec_item_field :: "string \<Rightarrow> pyval \<Rightarrow> bool" where
  "spec_item_field k v =
     (if k = ''image_url'' then (case v of PyStr s \<Rightarrow> spec_url s | _ \<Rightarrow> False)
      else if k = ''text_raw'' then (case v of PyStr s \<Rightarrow> s \<noteq> [] | _ \<Rightarrow> False)
      else if k = ''metadata'' then (case v of PyDict m \<Rightarrow> True | _ \<Rightarrow> False)
      else if k = ''image_bytes'' then (case v of PyBytes bs \<Rightarrow> True | _ \<Rightarrow> False)
      else if k = ''geo_point'' then spec_geo_point v
      else if k = ''concepts''
      then (case v of PyList cs \<Rightarrow> cs \<noteq> [] \<and> list_all spec_concept cs | _ \<Rightarrow> False)
      else False)"

fun spec_query_item :: "pyval \<Rightarrow> bool" where
  "spec_query_item (PyDict kvs) =
     (distinct (map fst kvs) \<and> list_all (\<lambda>kv. spec_item_field (fst kv) (snd kv)) kvs)"
| "spec_query_item _ = False"



section \<open>The language of a regular expression\<close>

text \<open>
  The set of strings a regular expression denotes, the reference for \<open>matches\<close> in the
  proofs below.
\<close>

definition conc :: "string set \<Rightarrow> string set \<Rightarrow> string set" where
  "conc A B = {u @ v | u v. u \<in> A \<and> v \<in> B}"

inductive_set star :: "string set \<Rightarrow> string set" for A :: "string set" where
  star_nil: "[] \<in> star A"
| star_app: "u \<in> A \<Longrightarrow> v \<in> star A \<Longrightarrow> u @ v \<in> star A"

fun lang :: "rexp \<Rightarrow> string set" where
  "lang Nul = {}"
| "lang Eps = {[]}"
| "lang (Cls rs) = {[c] | c. in_cls rs c}"
| "lang (Seq r s) = conc (lang r) (lang s)"
| "lang (Alt r s) = lang r \<union> lang s"
| "lang (Star r) = star (lang r)"

section \<open>Matching by derivatives decides the language\<close>

lemma nil_in_conc: "[] \<in> conc A B \<longleftrightarrow> [] \<in> A \<and> [] \<in> B"
  by (auto simp: conc_def)

lemma Cons_in_conc:
  "c # w \<in> conc A B \<longleftrightarrow>
     ([] \<in> A \<and> c # w \<in> B) \<or> (\<exists>u v. c # u \<in> A \<and> v \<in> B \<and> w = u @ v)"
  by (auto simp: conc_def Cons_eq_append_conv) 

lemma star_Cons_dest:
  "x \<in> star A \<Longrightarrow> x = c # w \<Longrightarrow> \<exists>u v. c # u \<in> A \<and> v \<in> star A \<and> w = u @ v"
proof (induction arbitrary: w rule: star.induct)
  case star_nil
  then show ?case by simp
next
  case (star_app u v)
  show ?case
  proof (cases u)
    case Nil
    with star_app show ?thesis by simp
  next
    case (Cons d u')
    with star_app.prems have "d = c" and "w = u' @ v" by simp_all
    with Cons star_app.hyps show ?thesis by blast
  qed
qed

lemma Cons_in_star:
  "c # w \<in> star A \<longleftrightarrow> (\<exists>u v. c # u \<in> A \<and> v \<in> star A \<and> w = u @ v)"
proof
  assume "c # w \<in> star A"
  then show "\<exists>u v. c # u \<in> A \<and> v \<in> star A \<and> w = u @ v"
    by (rule star_Cons_dest) simp
next
  assume "\<exists>u v. c # u \<in> A \<and> v \<in> star A \<and> w = u @ v"
  then obtain u v where "c # u \<in> A" "v \<in> star A" "w = u @ v" by blast
  then show "c # w \<in> star A"
    using star_app [of "c # u" A v] by simp
qed

lemma nullable_lang: "nullable r \<longleftrightarrow> [] \<in> lang r"
  by (induction r) (auto simp: nil_in_conc intro: star_nil)

lemma deriv_lang: "w \<in> lang (deriv c r) \<longleftrightarrow> c # w \<in> lang r"
proof (induction r arbitrary: w)
  case (Seq r s)
  have left: "w \<in> conc (lang (deriv c r)) (lang s) \<longleftrightarrow>
      (\<exists>u v. c # u \<in> lang r \<and> v \<in> lang s \<and> w = u @ v)"
    using Seq.IH(1) by (auto simp: conc_def)
  show ?case
    using Seq.IH(2) by (auto simp: left Cons_in_conc nullable_lang)
next
  case (Star r)
  have "w \<in> conc (lang (deriv c r)) (star (lang r)) \<longleftrightarrow>
      (\<exists>u v. c # u \<in> lang r \<and> v \<in> star (lang r) \<and> w = u @ v)"
    using Star.IH by (auto simp: conc_def)
  then show ?case
    by (simp add: Cons_in_star)
qed auto

lemma matches_lang: "matches r w \<longleftrightarrow> w \<in> lang r"
  by (induction w arbitrary: r) (simp_all add: nullable_lang deriv_lang)

section \<open>What the validator accepts\<close>

lemma is_valid_iff: "is_valid b s v \<longleftrightarrow> validate b s v = Inr ()"
  by (cases "validate b s v") (simp_all add: is_valid_def)

lemma new_keys_eq:
  "[f x. x \<leftarrow> xs, P x] = map f (filter P xs)"
  by (induction xs) simp_all

lemma coverage_set:
  "set [sk. Covered sk \<leftarrow> rs] = {sk. Covered sk \<in> set rs}"
  by (induction rs) (auto split: key_result.splits)

lemma length_remdups_filter:
  "length (remdups (map f (filter P xs))) = length xs \<longleftrightarrow>
     (\<forall>x\<in>set xs. P x) \<and> distinct (map f xs)"
proof
  assume eq: "length (remdups (map f (filter P xs))) = length xs"
  have "length (remdups (map f (filter P xs))) \<le> length (filter P xs)"
    using length_remdups_leq [of "map f (filter P xs)"] by simp
  with eq have full: "length (filter P xs) = length xs"
    using length_filter_le [of P xs] by linarith
  have all: "\<forall>x\<in>set xs. P x"
  proof
    fix x assume "x \<in> set xs"
    then show "P x" using full length_filter_less [of x xs P] by fastforce
  qed
  then have "filter P xs = xs" by simp
  with eq have "length (remdups (map f xs)) = length (map f xs)" by simp
  then have "distinct (map f xs)"
    by (simp only: length_remdups_eq remdups_id_iff_distinct)
  with all show "(\<forall>x\<in>set xs. P x) \<and> distinct (map f xs)" by simp
next
  assume h: "(\<forall>x\<in>set xs. P x) \<and> distinct (map f xs)"
  then have "filter P xs = xs" by simp
  with h show "length (remdups (map f (filter P xs))) = length xs"
    by (simp add: distinct_remdups_id)
qed

lemma invalid_not_covered:
  "(\<forall>x\<in>set xs. is_covered (g x)) \<Longrightarrow> Invalid \<notin> set (map g xs)"
  by (induction xs) auto

lemma validate_Dict_iff:
  "validate b (Dict es) v = Inr () \<longleftrightarrow>
     (\<exists>kvs. v = PyDict kvs \<and> distinct (map fst kvs) \<and>
        (\<forall>kv\<in>set kvs. is_covered (match_key b es (fst kv) (snd kv))) \<and>
        (\<forall>sk\<in>set (map fst es). \<not> is_optional sk \<longrightarrow>
           (\<exists>kv\<in>set kvs. match_key b es (fst kv) (snd kv) = Covered sk)))"
proof (cases v)
  case (PyDict kvs)
  let ?m = "\<lambda>kv. match_key b es (fst kv) (snd kv)"
  have inv: "(\<forall>kv\<in>set kvs. is_covered (?m kv)) \<Longrightarrow> Invalid \<notin> set (map ?m kvs)"
    by (rule invalid_not_covered)
  have r1: "set [sk. sk \<leftarrow> map fst es, \<not> is_optional sk] = {sk \<in> fst ` set es. \<not> is_optional sk}"
    by auto
  have r2: "set [sk. Covered sk \<leftarrow> map ?m kvs] = {sk. \<exists>kv\<in>set kvs. ?m kv = Covered sk}"
    unfolding coverage_set by force
  have req: "set [sk. sk \<leftarrow> map fst es, \<not> is_optional sk] \<subseteq> set [sk. Covered sk \<leftarrow> map ?m kvs] \<longleftrightarrow>
      (\<forall>sk\<in>set (map fst es). \<not> is_optional sk \<longrightarrow> (\<exists>kv\<in>set kvs. ?m kv = Covered sk))"
    unfolding r1 r2 by auto
  have nk: "length (remdups [fst kv. kv \<leftarrow> kvs, is_covered (?m kv)]) \<noteq> length kvs \<longleftrightarrow>
      \<not> ((\<forall>kv\<in>set kvs. is_covered (?m kv)) \<and> distinct (map fst kvs))"
    by (simp only: new_keys_eq length_remdups_filter)
  have v: "validate b (Dict es) (PyDict kvs) =
      (if Invalid \<in> set (map ?m kvs) then Inl SchemaError
       else if \<not> set [sk. sk \<leftarrow> map fst es, \<not> is_optional sk] \<subseteq> set [sk. Covered sk \<leftarrow> map ?m kvs]
       then Inl SchemaMissingKeyError
       else if length (remdups [fst kv. kv \<leftarrow> kvs, is_covered (?m kv)]) \<noteq> length kvs
       then Inl SchemaWrongKeyError
       else Inr ())"
    by (simp only: validate.simps pyval.case Let_def)
  show ?thesis
    unfolding PyDict v req nk using inv by auto
qed simp_all

lemma validate_unit: "validate b s v = Inr u \<longleftrightarrow> is_valid b s v"
  by (simp add: is_valid_iff)

lemma is_valid_Dict_PyDict:
  "is_valid b (Dict es) v \<Longrightarrow> \<exists>kvs. v = PyDict kvs \<and> distinct (map fst kvs)"
  by (auto simp: is_valid_iff validate_Dict_iff simp del: validate.simps(5))

lemma concept_item_ok_eq:
  "concept_item_ok b x = Some (is_valid b concept_schema x \<and> x \<noteq> PyDict [])"
proof (cases "is_valid b concept_schema x")
  case True
  then obtain kvs where "x = PyDict kvs"
    unfolding concept_schema_def by (blast dest: is_valid_Dict_PyDict)
  with True show ?thesis by (simp add: concept_item_ok_def)
next
  case False
  then show ?thesis by (simp add: concept_item_ok_def)
qed

lemma py_all_total:
  "py_all (\<lambda>x. Some (P x)) xs = Some (\<forall>x\<in>set xs. P x)"
  by (induction xs) (auto split: bool.splits)

lemma is_valid_concepts_schema:
  "is_valid b (concepts_schema b) v \<longleftrightarrow>
     (\<exists>xs. v = PyList xs \<and> (\<forall>x\<in>set xs. is_valid b concept_schema x \<and> x \<noteq> PyDict []))"
proof (cases v)
  case (PyList xs)
  have "py_all (concept_item_ok b) xs =
      Some (\<forall>x\<in>set xs. is_valid b concept_schema x \<and> x \<noteq> PyDict [])"
    using py_all_total [of "\<lambda>x. is_valid b concept_schema x \<and> x \<noteq> PyDict []" xs]
    by (simp add: concept_item_ok_eq [abs_def])
  then show ?thesis
    by (simp add: PyList is_valid_iff concepts_schema_def all_concepts_ok_def)
qed (simp_all add: is_valid_iff concepts_schema_def)

lemma match_key3:
  assumes "a \<noteq> c" "a \<noteq> e" "c \<noteq> e"
  shows "match_key bi [(Key a, sa), (Key c, sc), (Key e, se)] k x =
     (if k = a then (if is_valid bi sa x then Covered (Key a) else Invalid)
      else if k = c then (if is_valid bi sc x then Covered (Key c) else Invalid)
      else if k = e then (if is_valid bi se x then Covered (Key e) else Invalid)
      else Unmatched)"
  using assms by (auto simp: is_valid_def split: sum.splits)

lemma validate_Dict3:
  assumes ne: "a \<noteq> c" "a \<noteq> e" "c \<noteq> e"
  shows "validate bi (Dict [(Key a, sa), (Key c, sc), (Key e, se)]) v = Inr () \<longleftrightarrow>
     (\<exists>kvs x y z. v = PyDict kvs \<and> distinct (map fst kvs) \<and>
        set kvs = {(a, x), (c, y), (e, z)} \<and>
        is_valid bi sa x \<and> is_valid bi sc y \<and> is_valid bi se z)"
  (is "?L \<longleftrightarrow> ?R")
proof
  define G where "G = [(Key a, sa), (Key c, sc), (Key e, se)]"
  note mk = match_key3 [OF ne, of bi sa sc se, folded G_def]
  assume ?L
  then have "validate bi (Dict G) v = Inr ()" by (simp only: G_def)
  then obtain kvs where v: "v = PyDict kvs" and d: "distinct (map fst kvs)"
    and cov: "\<forall>kv\<in>set kvs. is_covered (match_key bi G (fst kv) (snd kv))"
    and req: "\<forall>sk\<in>set (map fst G). \<not> is_optional sk \<longrightarrow>
        (\<exists>kv\<in>set kvs. match_key bi G (fst kv) (snd kv) = Covered sk)"
    unfolding validate_Dict_iff by blast
  have r: "\<exists>kv\<in>set kvs. match_key bi G (fst kv) (snd kv) = Covered (Key k)"
    if "k = a \<or> k = c \<or> k = e" for k
    using req that by (auto simp: G_def simp del: match_key.simps)
  have r': "\<exists>w. (k, w) \<in> set kvs \<and> match_key bi G k w = Covered (Key k)"
    if "k = a \<or> k = c \<or> k = e" for k
  proof -
    from r [OF that] obtain k' w where m: "(k', w) \<in> set kvs"
      "match_key bi G k' w = Covered (Key k)" by force
    from m(2) have "k' = k" unfolding mk by (simp split: if_splits)
    with m show ?thesis by blast
  qed
  from r' [of a] obtain x where x: "(a, x) \<in> set kvs" "is_valid bi sa x"
    unfolding mk using ne by (auto split: if_splits)
  from r' [of c] obtain y where y: "(c, y) \<in> set kvs" "is_valid bi sc y"
    unfolding mk using ne by (auto split: if_splits)
  from r' [of e] obtain z where z: "(e, z) \<in> set kvs" "is_valid bi se z"
    unfolding mk using ne by (auto split: if_splits)
  have sub: "(k, w) \<in> {(a, x), (c, y), (e, z)}" if kv: "(k, w) \<in> set kvs" for k w
  proof -
    from cov kv have "is_covered (match_key bi G k w)" by force
    then have k: "k = a \<or> k = c \<or> k = e"
      unfolding mk by (simp split: if_splits)
    then show ?thesis
      using eq_key_imp_eq_value [OF d kv] x(1) y(1) z(1) by auto
  qed
  have "set kvs = {(a, x), (c, y), (e, z)}"
  proof
    show "set kvs \<subseteq> {(a, x), (c, y), (e, z)}"
      using sub by (rule subrelI)
    show "{(a, x), (c, y), (e, z)} \<subseteq> set kvs"
      using x y z by simp
  qed
  with v d x y z show ?R by blast
next
  assume ?R
  then obtain kvs x y z where v: "v = PyDict kvs" and d: "distinct (map fst kvs)"
    and s: "set kvs = {(a, x), (c, y), (e, z)}"
    and ok: "is_valid bi sa x" "is_valid bi sc y" "is_valid bi se z"
    by blast
  have "validate bi (Dict [(Key a, sa), (Key c, sc), (Key e, se)]) (PyDict kvs) = Inr ()"
    unfolding validate_Dict_iff
    using d ok ne by (simp add: s match_key3 [OF ne] del: match_key.simps)
  then show ?L by (simp only: v)
qed

lemma is_valid_Type_float: "is_valid bi (Type T_float) x \<longleftrightarrow> (\<exists>r. x = PyFloat r)"
  by (cases x) (simp_all add: is_valid_def)

lemma is_valid_Type_int:
  "is_valid bi (Type T_int) x \<longleftrightarrow> (\<exists>i. x = PyInt i) \<or> (bi \<and> (\<exists>t. x = PyBool t))"
  by (cases x) (simp_all add: is_valid_def)

lemma validate_geo_keys:
  assumes ne: "a \<noteq> c" "a \<noteq> e" "c \<noteq> e"
  shows "validate bi (Dict [(Key a, Type T_float), (Key c, Type T_float), (Key e, Type T_int)]) v = Inr () \<longleftrightarrow>
     (\<exists>kvs x y l. v = PyDict kvs \<and> distinct (map fst kvs) \<and>
        set kvs = {(a, PyFloat x), (c, PyFloat y), (e, l)} \<and>
        ((\<exists>i. l = PyInt i) \<or> (bi \<and> (\<exists>t. l = PyBool t))))"
  (is "?L \<longleftrightarrow> ?R")
proof
  assume ?L
  then have "\<exists>kvs x y z. v = PyDict kvs \<and> distinct (map fst kvs) \<and>
        set kvs = {(a, x), (c, y), (e, z)} \<and>
        is_valid bi (Type T_float) x \<and> is_valid bi (Type T_float) y \<and> is_valid bi (Type T_int) z"
    by (simp only: validate_Dict3 [OF ne])
  then obtain kvs x y z where v: "v = PyDict kvs" "distinct (map fst kvs)"
    and s: "set kvs = {(a, x), (c, y), (e, z)}"
    and ok: "is_valid bi (Type T_float) x" "is_valid bi (Type T_float) y"
      "is_valid bi (Type T_int) z"
    by (elim exE conjE)
  from ok(1) obtain r1 where x: "x = PyFloat r1" unfolding is_valid_Type_float ..
  from ok(2) obtain r2 where y: "y = PyFloat r2" unfolding is_valid_Type_float ..
  have s': "set kvs = {(a, PyFloat r1), (c, PyFloat r2), (e, z)}"
    using s x y by (simp only:)
  from ok(3) have z: "(\<exists>i. z = PyInt i) \<or> (bi \<and> (\<exists>t. z = PyBool t))"
    unfolding is_valid_Type_int .
  show ?R
    using v s' z by (intro exI [of _ kvs] exI [of _ r1] exI [of _ r2] exI [of _ z] conjI)
next
  assume ?R
  then obtain kvs x y l where v: "v = PyDict kvs" "distinct (map fst kvs)"
    and s: "set kvs = {(a, PyFloat x), (c, PyFloat y), (e, l)}"
    and l: "(\<exists>i. l = PyInt i) \<or> (bi \<and> (\<exists>t. l = PyBool t))"
    by (elim exE conjE)
  have f: "is_valid bi (Type T_float) (PyFloat x)" "is_valid bi (Type T_float) (PyFloat y)"
    by (simp_all add: is_valid_Type_float)
  from l have i: "is_valid bi (Type T_int) l"
    unfolding is_valid_Type_int .
  have "\<exists>kvs x y z. v = PyDict kvs \<and> distinct (map fst kvs) \<and>
        set kvs = {(a, x), (c, y), (e, z)} \<and>
        is_valid bi (Type T_float) x \<and> is_valid bi (Type T_float) y \<and> is_valid bi (Type T_int) z"
    using v s f i
    by (intro exI [of _ kvs] exI [of _ "PyFloat x"] exI [of _ "PyFloat y"] exI [of _ l] conjI)
  then show ?L
    by (simp only: validate_Dict3 [OF ne])
qed

lemma is_valid_geo_point_schema:
  "is_valid b geo_point_schema v \<longleftrightarrow>
     (\<exists>kvs x y l. v = PyDict kvs \<and> distinct (map fst kvs) \<and>
        set kvs = {(''longitude'', PyFloat x), (''latitude'', PyFloat y), (''geo_limit'', l)} \<and>
        ((\<exists>i. l = PyInt i) \<or> (b \<and> (\<exists>t. l = PyBool t))))"
proof -
  have ne: "''longitude'' \<noteq> ''latitude''" "''longitude'' \<noteq> ''geo_limit''"
    "''latitude'' \<noteq> ''geo_limit''"
    by simp_all
  show ?thesis
    unfolding is_valid_iff geo_point_schema_def by (rule validate_geo_keys [OF ne])
qed

lemma item_covered:
  "is_valid b (rank_filter_item_schema b) (PyDict kvs) \<Longrightarrow> kv \<in> set kvs \<Longrightarrow>
     is_covered (match_key b
       [(Optional ''image_url'', And [Type T_str, Regex url_pattern]),
        (Optional ''text_raw'', And [Type T_str, Callable len]),
        (Optional ''metadata'', Type T_dict),
        (Optional ''image_bytes'', Type T_bytes),
        (Optional ''geo_point'', geo_point_schema),
        (Optional ''concepts'', concepts_schema b)] (fst kv) (snd kv))"
  by (simp add: is_valid_iff rank_filter_item_schema_def validate_Dict_iff del: validate.simps(5))


lemma item_geo_point:
  assumes "is_valid b (rank_filter_item_schema b) (PyDict kvs)" and "(''geo_point'', v) \<in> set kvs"
  shows "is_valid b geo_point_schema v"
  using item_covered [OF assms] by (simp add: is_valid_def split: sum.splits)


lemma item_single_geo_point:
  "is_valid b (rank_filter_item_schema b) (PyDict [(''geo_point'', v)]) \<longleftrightarrow> is_valid b geo_point_schema v"
  by (simp add: is_valid_iff rank_filter_item_schema_def validate_Dict_iff del: validate.simps(5) split: sum.splits)

lemma match_key_unmatched:
  "k \<notin> set (map (\<lambda>e. skey_name (fst e)) es) \<Longrightarrow> match_key b es k v = Unmatched"
  by (induction es) auto

lemma item_unknown_key:
  assumes "kv \<in> set kvs"
    and "fst kv \<notin> {''image_url'', ''image_bytes'', ''text_raw'', ''metadata'', ''geo_point'', ''concepts''}"
  shows "\<not> is_valid b (rank_filter_item_schema b) (PyDict kvs)"
proof
  assume "is_valid b (rank_filter_item_schema b) (PyDict kvs)"
  from item_covered [OF this assms(1)] show False
    using assms(2) by (subst (asm) match_key_unmatched) simp_all
qed

lemma validate_or_single: "validate_or b [s] x \<longleftrightarrow> is_valid b s x"
  by (simp add: is_valid_def split: sum.splits)

lemma is_valid_get_schema:
  "is_valid b (get_schema b) v \<longleftrightarrow>
     (\<exists>items. v = PyList items \<and> (\<forall>item\<in>set items. is_valid b (rank_filter_item_schema b) item))"
proof (cases v)
  case (PyList xs)
  have "list_all (validate_or b [rank_filter_item_schema b]) xs \<longleftrightarrow>
      (\<forall>item\<in>set xs. is_valid b (rank_filter_item_schema b) item)"
    unfolding list_all_iff using validate_or_single [of b "rank_filter_item_schema b"] by blast
  then show ?thesis
    by (simp add: PyList is_valid_iff get_schema_def)
qed (simp_all add: is_valid_iff get_schema_def)

section \<open>The schema accepts the items of the specification\<close>

lemma in_concI: "u \<in> A \<Longrightarrow> v \<in> B \<Longrightarrow> u @ v \<in> conc A B"
  unfolding conc_def by blast

lemma in_concE:
  assumes "w \<in> conc A B"
  obtains u v where "w = u @ v" "u \<in> A" "v \<in> B"
  using assms unfolding conc_def by blast

lemma rest_nil: "[] \<in> conc (star A) (star B)"
  using in_concI [OF star_nil star_nil, of A B] by simp

lemma rest_alnum:
  assumes "[c] \<in> A" and "w \<in> conc (star A) T"
  shows "c # w \<in> conc (star A) T"
proof -
  from assms(2) obtain u v where w: "w = u @ v" and u: "u \<in> star A" and v: "v \<in> T"
    by (rule in_concE)
  from star_app [OF assms(1) u] have "c # u \<in> star A" by simp
  from in_concI [OF this v] show ?thesis by (simp add: w)
qed

lemma first_alnum:
  assumes "[c] \<in> A" and "w \<in> conc (star A) T"
  shows "c # w \<in> conc (conc A (star A)) T"
proof -
  from assms(2) obtain u v where w: "w = u @ v" and u: "u \<in> star A" and v: "v \<in> T"
    by (rule in_concE)
  from in_concI [OF assms(1) u] have "c # u \<in> conc A (star A)" by simp
  from in_concI [OF this v] show ?thesis by (simp add: w)
qed

lemma rest_sep:
  assumes "[c] \<in> S" and "w \<in> conc B (star (conc S B))"
  shows "c # w \<in> conc (star A) (star (conc S B))"
proof -
  from assms(2) obtain u v where w: "w = u @ v" and u: "u \<in> B" and v: "v \<in> star (conc S B)"
    by (rule in_concE)
  from in_concI [OF assms(1) u] have "c # u \<in> conc S B" by simp
  from star_app [OF this v] have "c # w \<in> star (conc S B)" by (simp add: w)
  from in_concI [OF star_nil this, of A] show ?thesis by simp
qed

lemma segments_not_Nil: "segments s \<noteq> []"
  by (induction s) (auto split: list.splits)

lemma lang_name_body:
  "lang name_body =
     conc (conc (lang (Cls alnum)) (star (lang (Cls alnum))))
       (star (conc (lang (Cls dash_underscore)) (conc (lang (Cls alnum)) (star (lang (Cls alnum))))))"
  by (simp add: name_body_def Plus_def)

lemma segments_lang:
  "(list_all (in_cls alnum) (hd (segments s)) \<and>
      list_all (\<lambda>seg. seg \<noteq> [] \<and> list_all (in_cls alnum) seg) (tl (segments s)) \<longrightarrow>
    s \<in> conc (star (lang (Cls alnum)))
      (star (conc (lang (Cls dash_underscore)) (conc (lang (Cls alnum)) (star (lang (Cls alnum))))))) \<and>
   (list_all (\<lambda>seg. seg \<noteq> [] \<and> list_all (in_cls alnum) seg) (segments s) \<longrightarrow>
    s \<in> lang name_body)"
proof (induction s)
  case Nil
  show ?case by (simp add: rest_nil)
next
  case (Cons c cs)
  show ?case
  proof (cases "in_cls dash_underscore c")
    case True
    then have "[c] \<in> lang (Cls dash_underscore)" by simp
    with Cons.IH True show ?thesis
      by (auto simp: lang_name_body intro: rest_sep)
  next
    case False
    obtain seg segs where sg: "segments cs = seg # segs"
      using segments_not_Nil [of cs] by (cases "segments cs") auto
    show ?thesis
      using Cons.IH False
      by (auto simp: sg lang_name_body intro: rest_alnum first_alnum)
  qed
qed

lemma spec_name_matches: "spec_name s \<Longrightarrow> re_search name_pattern s"
  using segments_lang [of s] by (simp add: spec_name_def name_pattern_def matches_lang)


lemma spec_url_search: "spec_url s \<Longrightarrow> re_search url_pattern s"
proof -
  assume "spec_url s"
  then consider "prefix ''http://'' s" | "prefix ''https://'' s"
    unfolding spec_url_def by blast
  then show ?thesis
  proof cases
    case 1
    then have "''http://'' \<in> set (prefixes s)" by (simp only: in_set_prefixes)
    moreover have "matches (Seq (Str ''http'') (Seq (Opt (Lit CHR ''s'')) (Str ''://''))) ''http://''"
      by (simp add: Opt_def Lit_def in_cls_def in_range_def)
    ultimately show ?thesis
      unfolding url_pattern_def re_search.simps list_ex_iff by (rule rev_bexI)
  next
    case 2
    then have "''https://'' \<in> set (prefixes s)" by (simp only: in_set_prefixes)
    moreover have "matches (Seq (Str ''http'') (Seq (Opt (Lit CHR ''s'')) (Str ''://''))) ''https://''"
      by (simp add: Opt_def Lit_def in_cls_def in_range_def)
    ultimately show ?thesis
      unfolding url_pattern_def re_search.simps list_ex_iff by (rule rev_bexI)
  qed
qed

lemma concept_field_covered:
  assumes "spec_concept_field k v"
  shows "is_covered (match_key b
     [(Optional ''value'', And [Type T_int, Callable in_0_1]),
      (Optional ''id'', And [Type T_str, Callable len]),
      (Optional ''language'', And [Type T_str, Callable len]),
      (Optional ''name'', And [Type T_str, Callable len, Regex name_pattern])] k v)"
proof (cases v)
  case (PyStr s)
  with assms consider "k = ''name''" "spec_name s" | "k = ''id''" "s \<noteq> []" | "k = ''language''" "s \<noteq> []"
    by auto
  then show ?thesis
  proof cases
    case 1
    from 1(2) have "re_search name_pattern s" by (rule spec_name_matches)
    moreover from 1(2) have "s \<noteq> []" by (auto simp: spec_name_def)
    ultimately show ?thesis by (simp add: PyStr 1(1) len_def)
  next
    case 2
    then show ?thesis by (simp add: PyStr len_def)
  next
    case 3
    then show ?thesis by (simp add: PyStr len_def)
  qed
next
  case (PyInt i)
  with assms show ?thesis by (auto simp: in_0_1_def)
qed (use assms in simp_all)

lemma spec_concept_valid:
  assumes "spec_concept c"
  shows "is_valid b concept_schema c \<and> c \<noteq> PyDict []"
proof (cases c)
  case (PyDict kvs)
  with assms have ne: "kvs \<noteq> []" and d: "distinct (map fst kvs)"
    and f: "\<forall>kv\<in>set kvs. spec_concept_field (fst kv) (snd kv)"
    by (simp_all add: list_all_iff)
  have "validate b concept_schema (PyDict kvs) = Inr ()"
    unfolding concept_schema_def validate_Dict_iff
    using d f by (simp add: concept_field_covered del: match_key.simps)
  with ne show ?thesis by (simp add: PyDict is_valid_iff)
qed (use assms in simp_all)


lemma is_float_valid: "is_float v \<Longrightarrow> is_valid bi (Type T_float) v"
  by (cases v) (simp_all add: is_valid_def)

lemma is_int_valid: "is_int v \<Longrightarrow> is_valid bi (Type T_int) v"
  by (cases v) (simp_all add: is_valid_def)

lemma geo_keys_valid:
  assumes ne: "a \<noteq> c" "a \<noteq> e" "c \<noteq> e"
    and d: "distinct (map fst kvs)"
    and keys: "set (map fst kvs) = {a, c, e}"
    and types: "\<forall>kv\<in>set kvs. if fst kv = e then is_int (snd kv) else is_float (snd kv)"
  shows "validate bi (Dict [(Key a, Type T_float), (Key c, Type T_float), (Key e, Type T_int)])
     (PyDict kvs) = Inr ()"
proof -
  define G where "G = [(Key a, Type T_float), (Key c, Type T_float), (Key e, Type T_int)]"
  note mk = match_key3 [OF ne, of bi "Type T_float" "Type T_float" "Type T_int", folded G_def]
  have cov: "match_key bi G (fst kv) (snd kv) = Covered (Key (fst kv))" if kv: "kv \<in> set kvs" for kv
  proof -
    from kv have "fst kv \<in> set (map fst kvs)" by simp
    then have k: "fst kv = a \<or> fst kv = c \<or> fst kv = e" unfolding keys by simp
    from types kv have t: "if fst kv = e then is_int (snd kv) else is_float (snd kv)" ..
    from k show ?thesis
    proof (elim disjE)
      assume "fst kv = a"
      with t ne show ?thesis unfolding mk by (simp add: is_float_valid)
    next
      assume "fst kv = c"
      with t ne show ?thesis unfolding mk by (simp add: is_float_valid)
    next
      assume "fst kv = e"
      with t ne show ?thesis unfolding mk by (simp add: is_int_valid)
    qed
  qed
  have ex: "\<exists>kv\<in>set kvs. match_key bi G (fst kv) (snd kv) = Covered (Key k)"
    if "k \<in> {a, c, e}" for k
  proof -
    from that have "k \<in> set (map fst kvs)" unfolding keys .
    then obtain kv where kv: "kv \<in> set kvs" "fst kv = k" by auto
    from cov [OF kv(1)] kv(2) have "match_key bi G (fst kv) (snd kv) = Covered (Key k)" by simp
    with kv(1) show ?thesis ..
  qed
  have c1: "\<forall>kv\<in>set kvs. is_covered (match_key bi G (fst kv) (snd kv))"
    using cov by simp
  have c2: "\<forall>sk\<in>set (map fst G). \<not> is_optional sk \<longrightarrow>
      (\<exists>kv\<in>set kvs. match_key bi G (fst kv) (snd kv) = Covered sk)"
    using ex by (simp add: G_def del: match_key.simps)
  have "validate bi (Dict G) (PyDict kvs) = Inr ()"
    unfolding validate_Dict_iff using d c1 c2 by (intro exI [of _ kvs] conjI refl)
  then show ?thesis by (simp only: G_def)
qed

lemma spec_geo_point_valid:
  assumes "spec_geo_point v"
  shows "is_valid b geo_point_schema v"
proof (cases v)
  case (PyDict kvs)
  have ne: "''longitude'' \<noteq> ''latitude''" "''longitude'' \<noteq> ''geo_limit''"
    "''latitude'' \<noteq> ''geo_limit''"
    by simp_all
  from assms have all: "distinct (map fst kvs) \<and>
      set (map fst kvs) = {''longitude'', ''latitude'', ''geo_limit''} \<and>
      (\<forall>kv\<in>set kvs. if fst kv = ''geo_limit'' then is_int (snd kv) else is_float (snd kv))"
    unfolding PyDict spec_geo_point.simps list_all_iff .
  show ?thesis
    unfolding PyDict is_valid_iff geo_point_schema_def
    by (rule geo_keys_valid [OF ne all [THEN conjunct1] all [THEN conjunct2, THEN conjunct1]
          all [THEN conjunct2, THEN conjunct2]])
qed (use assms in simp_all)


lemma item_field_covered:
  assumes "spec_item_field k v"
  shows "is_covered (match_key b
       [(Optional ''image_url'', And [Type T_str, Regex url_pattern]),
        (Optional ''text_raw'', And [Type T_str, Callable len]),
        (Optional ''metadata'', Type T_dict),
        (Optional ''image_bytes'', Type T_bytes),
        (Optional ''geo_point'', geo_point_schema),
        (Optional ''concepts'', concepts_schema b)] k v)"
proof -
  from assms consider
      s where "k = ''image_url''" "v = PyStr s" "spec_url s"
    | s where "k = ''text_raw''" "v = PyStr s" "s \<noteq> []"
    | m where "k = ''metadata''" "v = PyDict m"
    | bs where "k = ''image_bytes''" "v = PyBytes bs"
    | "k = ''geo_point''" "spec_geo_point v"
    | cs where "k = ''concepts''" "v = PyList cs" "list_all spec_concept cs"
    unfolding spec_item_field_def by (cases v) (simp_all split: if_splits)
  then show ?thesis
  proof cases
    case 1
    then show ?thesis by (simp add: spec_url_search)
  next
    case 2
    then show ?thesis by (simp add: len_def)
  next
    case 3
    then show ?thesis by simp
  next
    case 4
    then show ?thesis by simp
  next
    case 5
    from 5(2) have "validate b geo_point_schema v = Inr ()"
      using spec_geo_point_valid [of v b] by (simp only: is_valid_iff)
    with 5(1) show ?thesis by (simp del: validate.simps)
  next
    case 6
    from 6(3) have "\<forall>x\<in>set cs. is_valid b concept_schema x \<and> x \<noteq> PyDict []"
      unfolding list_all_iff using spec_concept_valid by blast
    then have "validate b (concepts_schema b) v = Inr ()"
      using is_valid_concepts_schema [of b v] 6(2) by (simp only: is_valid_iff) blast
    with 6(1) show ?thesis by (simp del: validate.simps)
  qed
qed

lemma spec_query_item_valid:
  assumes "spec_query_item item"
  shows "is_valid b (rank_filter_item_schema b) item"
proof (cases item)
  case (PyDict kvs)
  with assms have d: "distinct (map fst kvs)"
    and f: "\<forall>kv\<in>set kvs. spec_item_field (fst kv) (snd kv)"
    by (simp_all add: list_all_iff)
  have "validate b (rank_filter_item_schema b) (PyDict kvs) = Inr ()"
    unfolding rank_filter_item_schema_def validate_Dict_iff
    using d f by (simp add: item_field_covered del: match_key.simps)
  then show ?thesis by (simp only: PyDict is_valid_iff)
qed (use assms in simp_all)


section \<open>What the pattern of concept names accepts\<close>

text \<open>
  The body of the pattern matches exactly the names of the specification; with
  \<^verbatim>\<open>search\<close> and \<^verbatim>\<open>$\<close>, the pattern accepts such a name and such a name followed
  by one newline, and nothing else.
\<close>

lemma dash_underscore_iff: "in_cls dash_underscore c \<longleftrightarrow> c = CHR ''-'' \<or> c = CHR ''_''"
proof -
  have "in_range c (a, a) \<longleftrightarrow> c = a" for a
    by (auto simp: in_range_def)
  then show ?thesis
    by (simp add: in_cls_def dash_underscore_def)
qed

lemma alnum_not_separator: "in_cls alnum c \<Longrightarrow> \<not> in_cls dash_underscore c"
  unfolding dash_underscore_iff
  by (auto simp: in_cls_def alnum_def in_range_def)

lemma segments_alnum_Cons:
  "in_cls alnum c \<Longrightarrow> segments (c # s) = (c # hd (segments s)) # tl (segments s)"
  using segments_not_Nil [of s] alnum_not_separator [of c]
  by (cases "segments s") simp_all

lemma segments_alnum_append:
  "list_all (in_cls alnum) a \<Longrightarrow> segments (a @ t) = (a @ hd (segments t)) # tl (segments t)"
proof (induction a)
  case Nil
  then show ?case using segments_not_Nil [of t] by simp
next
  case (Cons c a)
  then have c: "in_cls alnum c" and a: "list_all (in_cls alnum) a" by simp_all
  show ?case
    using Cons.IH [OF a] by (simp add: segments_alnum_Cons [OF c] del: segments.simps)
qed

lemma star_alnum: "u \<in> star (lang (Cls alnum)) \<Longrightarrow> list_all (in_cls alnum) u"
  by (induction rule: star.induct) auto

lemma plus_alnum:
  assumes "u \<in> conc (lang (Cls alnum)) (star (lang (Cls alnum)))"
  shows "u \<noteq> [] \<and> list_all (in_cls alnum) u"
proof -
  from assms obtain x y where "u = x @ y" "x \<in> lang (Cls alnum)" "y \<in> star (lang (Cls alnum))"
    by (rule in_concE)
  then show ?thesis using star_alnum [of y] by auto
qed

lemma blocks_segments:
  assumes "t \<in> star (conc (lang (Cls dash_underscore))
      (conc (lang (Cls alnum)) (star (lang (Cls alnum)))))"
  shows "hd (segments t) = [] \<and>
     list_all (\<lambda>seg. seg \<noteq> [] \<and> list_all (in_cls alnum) seg) (tl (segments t))"
  using assms
proof (induction rule: star.induct)
  case star_nil
  show ?case by simp
next
  case (star_app u v)
  from star_app.hyps(1) obtain x a where u: "u = x @ a" and x: "x \<in> lang (Cls dash_underscore)"
    and a: "a \<in> conc (lang (Cls alnum)) (star (lang (Cls alnum)))"
    by (rule in_concE)
  from x obtain c where c: "x = [c]" "in_cls dash_underscore c" by auto
  from plus_alnum [OF a] have a': "a \<noteq> []" "list_all (in_cls alnum) a" by simp_all
  have "segments (u @ v) = [] # segments (a @ v)"
    using c by (simp add: u)
  also have "segments (a @ v) = (a @ hd (segments v)) # tl (segments v)"
    by (rule segments_alnum_append [OF a'(2)])
  finally show ?case
    using star_app.IH a' by simp
qed

lemma lang_name_segments:
  assumes "w \<in> lang name_body"
  shows "spec_name w"
proof -
  from assms obtain u t where w: "w = u @ t"
    and u: "u \<in> conc (lang (Cls alnum)) (star (lang (Cls alnum)))"
    and t: "t \<in> star (conc (lang (Cls dash_underscore))
      (conc (lang (Cls alnum)) (star (lang (Cls alnum)))))"
    unfolding lang_name_body by (rule in_concE)
  from plus_alnum [OF u] have u': "u \<noteq> []" "list_all (in_cls alnum) u" by simp_all
  have "segments w = (u @ hd (segments t)) # tl (segments t)"
    unfolding w by (rule segments_alnum_append [OF u'(2)])
  then show ?thesis
    using blocks_segments [OF t] u' by (simp add: spec_name_def)
qed

lemma matches_name_body: "matches name_body s \<longleftrightarrow> spec_name s"
proof
  assume "matches name_body s"
  then show "spec_name s" by (simp add: matches_lang lang_name_segments)
next
  assume "spec_name s"
  then show "matches name_body s"
    using segments_lang [of s] by (simp add: spec_name_def matches_lang)
qed

lemma name_pattern_accepts:
  "re_search name_pattern s \<longleftrightarrow>
     spec_name s \<or> (s \<noteq> [] \<and> last s = newline \<and> spec_name (butlast s))"
  by (simp add: name_pattern_def matches_name_body)


lemma spec_name_not_Nil: "\<not> spec_name []"
  by (simp add: spec_name_def)

lemma spec_name_first: "spec_name (c # s) \<Longrightarrow> in_cls alnum c"
  using segments_not_Nil [of s]
  by (cases "segments s") (auto simp: spec_name_def split: if_splits)

lemma segments_chars:
  "c \<in> set s \<Longrightarrow> in_cls dash_underscore c \<or> (\<exists>seg\<in>set (segments s). c \<in> set seg)"
proof (induction s)
  case Nil
  then show ?case by simp
next
  case (Cons d s)
  obtain seg segs where sg: "segments s = seg # segs"
    using segments_not_Nil [of s] by (cases "segments s") auto
  from Cons show ?case
    by (auto simp: sg)
qed

lemma spec_name_chars:
  assumes "spec_name s" and "c \<in> set s"
  shows "in_cls alnum c \<or> in_cls dash_underscore c"
proof -
  from segments_chars [OF assms(2)] show ?thesis
  proof
    assume "in_cls dash_underscore c"
    then show ?thesis ..
  next
    assume "\<exists>seg\<in>set (segments s). c \<in> set seg"
    then obtain seg where "seg \<in> set (segments s)" "c \<in> set seg" ..
    with assms(1) have "in_cls alnum c"
      by (auto simp: spec_name_def list_all_iff)
    then show ?thesis ..
  qed
qed

lemma segments_snoc_separator:
  "in_cls dash_underscore c \<Longrightarrow> segments (s @ [c]) = segments s @ [[]]"
proof (induction s)
  case Nil
  then show ?case by simp
next
  case (Cons d s)
  obtain seg segs where sg: "segments s = seg # segs"
    using segments_not_Nil [of s] by (cases "segments s") auto
  from Cons show ?case by (simp add: sg)
qed

lemma spec_name_last: "spec_name (s @ [c]) \<Longrightarrow> \<not> in_cls dash_underscore c"
  by (auto simp: spec_name_def segments_snoc_separator)

lemma newline_not_in_classes: "\<not> in_cls alnum newline \<and> \<not> in_cls dash_underscore newline"
  by (simp add: newline_def in_cls_def alnum_def dash_underscore_def in_range_def)

lemma name_pattern_rejects:
  "\<not> re_search name_pattern []"
  "in_cls dash_underscore c \<Longrightarrow> \<not> re_search name_pattern (c # s)"
  "in_cls dash_underscore c \<Longrightarrow> \<not> re_search name_pattern (s @ [c])"
  "c \<in> set (butlast s) \<Longrightarrow> \<not> in_cls alnum c \<Longrightarrow> \<not> in_cls dash_underscore c \<Longrightarrow>
     \<not> re_search name_pattern s"
  "c \<in> set s \<Longrightarrow> \<not> in_cls alnum c \<Longrightarrow> \<not> in_cls dash_underscore c \<Longrightarrow> c \<noteq> newline \<Longrightarrow>
     \<not> re_search name_pattern s"
proof -
  show "\<not> re_search name_pattern []"
    by (simp add: name_pattern_accepts spec_name_not_Nil)
  show "\<not> re_search name_pattern (c # s)" if sep: "in_cls dash_underscore c"
  proof
    assume "re_search name_pattern (c # s)"
    then consider "spec_name (c # s)" | "spec_name (butlast (c # s))"
      unfolding name_pattern_accepts by blast
    then show False
    proof cases
      case 1
      from spec_name_first [OF 1] sep show False by (simp add: alnum_not_separator)
    next
      case 2
      show False
      proof (cases s)
        case Nil
        with 2 show False by (simp add: spec_name_not_Nil)
      next
        case (Cons d s')
        with 2 have "spec_name (c # butlast s)" by simp
        from spec_name_first [OF this] sep show False by (simp add: alnum_not_separator)
      qed
    qed
  qed
  show "\<not> re_search name_pattern (s @ [c])" if sep: "in_cls dash_underscore c"
  proof
    assume "re_search name_pattern (s @ [c])"
    then consider "spec_name (s @ [c])" | "c = newline"
      unfolding name_pattern_accepts by auto
    then show False
    proof cases
      case 1
      from spec_name_last [OF 1] sep show False ..
    next
      case 2
      with sep newline_not_in_classes show False by simp
    qed
  qed
  show "\<not> re_search name_pattern s"
    if c: "c \<in> set (butlast s)" "\<not> in_cls alnum c" "\<not> in_cls dash_underscore c"
  proof
    assume "re_search name_pattern s"
    then consider "spec_name s" | "spec_name (butlast s)"
      unfolding name_pattern_accepts by blast
    then show False
    proof cases
      case 1
      from c(1) have "c \<in> set s" by (rule in_set_butlastD)
      from spec_name_chars [OF 1 this] c show False by simp
    next
      case 2
      from spec_name_chars [OF 2 c(1)] c show False by simp
    qed
  qed
  show "\<not> re_search name_pattern s"
    if c: "c \<in> set s" "\<not> in_cls alnum c" "\<not> in_cls dash_underscore c" "c \<noteq> newline"
  proof
    assume r: "re_search name_pattern s"
    then consider "spec_name s" | "s \<noteq> []" "last s = newline" "spec_name (butlast s)"
      unfolding name_pattern_accepts by blast
    then show False
    proof cases
      case 1
      from spec_name_chars [OF 1 c(1)] c show False by simp
    next
      case 2
      from 2(1) have "s = butlast s @ [last s]" by simp
      with c(1) have "c \<in> set (butlast s) \<or> c = last s"
        by (metis Un_iff empty_iff insert_iff list.set(1) list.set(2) set_append)
      with 2(2) c(4) have "c \<in> set (butlast s)" by simp
      from spec_name_chars [OF 2(3) this] c show False by simp
    qed
  qed
qed


lemma concept_value_only:
  "concept_item_ok b (PyDict [(''value'', PyInt i)]) = Some (i = 0 \<or> i = 1)"
  by (simp add: concept_item_ok_def is_valid_def concept_schema_def in_0_1_def)

lemma concept_empty: "concept_item_ok b (PyDict []) = Some False"
  by (simp add: concept_item_ok_eq)

lemma concept_name_checked:
  assumes "(''name'', PyStr s) \<in> set kvs" and "\<not> re_search name_pattern s"
  shows "concept_item_ok b (PyDict kvs) = Some False"
proof -
  have "\<not> is_valid b concept_schema (PyDict kvs)"
  proof
    assume "is_valid b concept_schema (PyDict kvs)"
    then have "\<forall>kv\<in>set kvs. is_covered (match_key b
       [(Optional ''value'', And [Type T_int, Callable in_0_1]),
        (Optional ''id'', And [Type T_str, Callable len]),
        (Optional ''language'', And [Type T_str, Callable len]),
        (Optional ''name'', And [Type T_str, Callable len, Regex name_pattern])] (fst kv) (snd kv))"
      by (simp add: is_valid_iff concept_schema_def validate_Dict_iff
          del: validate.simps(5) match_key.simps)
    from this assms(1) have "is_covered (match_key b
       [(Optional ''value'', And [Type T_int, Callable in_0_1]),
        (Optional ''id'', And [Type T_str, Callable len]),
        (Optional ''language'', And [Type T_str, Callable len]),
        (Optional ''name'', And [Type T_str, Callable len, Regex name_pattern])]
       (fst (''name'', PyStr s)) (snd (''name'', PyStr s)))"
      by (rule bspec)
    with assms(2) show False
      by (simp add: len_def split: if_splits)
  qed
  then show ?thesis by (simp add: concept_item_ok_eq)
qed

section \<open>The concept schema and ConceptSpec\<close>








section \<open>Steps of the page generator\<close>

lemma page_request_twice: "page_request (page_request rd p) q = page_request rd q"
  by (simp add: page_request_def)

lemma gen_next_failed:
  assumes "\<not> gen_finished g"
    and "status_code (endpoint (page_request (gen_request_data g) (gen_page g))) \<noteq> SUCCESS"
  shows "gen_next endpoint (g, trace) =
     (Raise (Listing_failed (endpoint (page_request (gen_request_data g) (gen_page g)))),
      g\<lparr>gen_request_data := page_request (gen_request_data g) (gen_page g), gen_finished := True\<rparr>,
      trace @ [page_request (gen_request_data g) (gen_page g)])"
  using assms by (simp add: gen_next_def Let_def)

lemma gen_next_last:
  assumes "\<not> gen_finished g"
    and "status_code (endpoint (page_request (gen_request_data g) (gen_page g))) = SUCCESS"
    and "''hits'' \<notin> set (map fst (dict_response (endpoint (page_request (gen_request_data g) (gen_page g)))))"
  shows "gen_next endpoint (g, trace) =
     (StopIteration,
      g\<lparr>gen_request_data := page_request (gen_request_data g) (gen_page g), gen_finished := True\<rparr>,
      trace @ [page_request (gen_request_data g) (gen_page g)])"
  using assms by (simp add: gen_next_def Let_def)

lemma gen_next_yield:
  assumes "\<not> gen_finished g"
    and "status_code (endpoint (page_request (gen_request_data g) (gen_page g))) = SUCCESS"
    and "''hits'' \<in> set (map fst (dict_response (endpoint (page_request (gen_request_data g) (gen_page g)))))"
  shows "gen_next endpoint (g, trace) =
     (Yield (endpoint (page_request (gen_request_data g) (gen_page g))),
      g\<lparr>gen_request_data := page_request (gen_request_data g) (gen_page g), gen_page := gen_page g + 1\<rparr>,
      trace @ [page_request (gen_request_data g) (gen_page g)])"
  using assms by (simp add: gen_next_def Let_def)

lemma gen_next_finished:
  "gen_finished g \<Longrightarrow> gen_next endpoint (g, trace) = (StopIteration, g, trace)"
  by (simp add: gen_next_def)


lemma consume_pages:
  assumes "\<not> gen_finished g"
    and "\<forall>i<n. status_code (endpoint (page_request (gen_request_data g) (gen_page g + i))) = SUCCESS \<and>
           ''hits'' \<in> set (map fst (dict_response (endpoint (page_request (gen_request_data g) (gen_page g + i)))))"
    and "status_code (endpoint (page_request (gen_request_data g) (gen_page g + n))) = SUCCESS"
    and "''hits'' \<notin> set (map fst (dict_response (endpoint (page_request (gen_request_data g) (gen_page g + n)))))"
  shows "consume endpoint (g, trace) pages =
     Some (pages @ map (\<lambda>i. endpoint (page_request (gen_request_data g) (gen_page g + i))) [0..<n],
           None,
           trace @ map (\<lambda>i. page_request (gen_request_data g) (gen_page g + i)) [0..<Suc n])"
  using assms
proof (induction n arbitrary: g trace pages)
  case 0
  then have "gen_next endpoint (g, trace) =
     (StopIteration,
      g\<lparr>gen_request_data := page_request (gen_request_data g) (gen_page g), gen_finished := True\<rparr>,
      trace @ [page_request (gen_request_data g) (gen_page g)])"
    by (intro gen_next_last) simp_all
  then show ?case
    by (subst consume.simps) simp
next
  case (Suc n)
  let ?rd = "gen_request_data g" and ?p = "gen_page g"
  let ?g' = "g\<lparr>gen_request_data := page_request ?rd ?p, gen_page := ?p + 1\<rparr>"
  from Suc.prems(2) have first: "status_code (endpoint (page_request ?rd ?p)) = SUCCESS"
    "''hits'' \<in> set (map fst (dict_response (endpoint (page_request ?rd ?p))))"
    by (metis add.right_neutral zero_less_Suc)+
  with Suc.prems(1) have step: "gen_next endpoint (g, trace) =
     (Yield (endpoint (page_request ?rd ?p)), ?g', trace @ [page_request ?rd ?p])"
    by (intro gen_next_yield)
  have pr: "page_request (gen_request_data ?g') (gen_page ?g' + i) = page_request ?rd (?p + Suc i)" for i
    by (simp add: page_request_twice)
  have rest: "consume endpoint (?g', trace @ [page_request ?rd ?p]) (pages @ [endpoint (page_request ?rd ?p)]) =
     Some ((pages @ [endpoint (page_request ?rd ?p)]) @
             map (\<lambda>i. endpoint (page_request (gen_request_data ?g') (gen_page ?g' + i))) [0..<n],
           None,
           (trace @ [page_request ?rd ?p]) @
             map (\<lambda>i. page_request (gen_request_data ?g') (gen_page ?g' + i)) [0..<Suc n])"
  proof (rule Suc.IH)
    show "\<not> gen_finished ?g'" using Suc.prems(1) by simp
    show "\<forall>i<n. status_code (endpoint (page_request (gen_request_data ?g') (gen_page ?g' + i))) = SUCCESS \<and>
           ''hits'' \<in> set (map fst (dict_response (endpoint (page_request (gen_request_data ?g') (gen_page ?g' + i)))))"
      unfolding pr
    proof (intro allI impI)
      fix i assume "i < n"
      then have "Suc i < Suc n" by simp
      with Suc.prems(2) show "status_code (endpoint (page_request ?rd (?p + Suc i))) = SUCCESS \<and>
           ''hits'' \<in> set (map fst (dict_response (endpoint (page_request ?rd (?p + Suc i)))))"
        by (meson)
    qed
    show "status_code (endpoint (page_request (gen_request_data ?g') (gen_page ?g' + n))) = SUCCESS"
      unfolding pr using Suc.prems(3) .
    show "''hits'' \<notin> set (map fst (dict_response (endpoint (page_request (gen_request_data ?g') (gen_page ?g' + n)))))"
      unfolding pr using Suc.prems(4) .
  qed
  have l1: "map (\<lambda>i. endpoint (page_request ?rd (?p + i))) [0..<Suc n] =
      endpoint (page_request ?rd ?p) # map (\<lambda>i. endpoint (page_request ?rd (?p + Suc i))) [0..<n]"
    by (simp add: upt_conv_Cons map_Suc_upt [symmetric] del: upt_Suc)
  have l2: "map (\<lambda>i. page_request ?rd (?p + i)) [0..<Suc (Suc n)] =
      page_request ?rd ?p # map (\<lambda>i. page_request ?rd (?p + Suc i)) [0..<Suc n]"
    by (simp add: upt_conv_Cons map_Suc_upt [symmetric] del: upt_Suc)
  show ?case
    apply (subst consume.simps)
    apply (simp only: step fst_conv snd_conv step.case rest pr l1 l2)
    apply simp
    done
qed


lemma upt_shift: "map f [1..<n + 1] = map (\<lambda>i. f (1 + i)) [0..<n]"
proof -
  have "[1..<n + 1] = map (\<lambda>i. i + 1) [0..<n]"
    using map_add_upt [of 1 n] by simp
  then show ?thesis by (simp add: comp_def)
qed

lemma validate_default_items: "validate b (get_schema b) default_items = Inr ()"
  by (simp add: default_items_def get_schema_def rank_filter_item_schema_def)

lemma start_pages_ok:
  assumes "uint32 (default_page_size self)"
  shows "start_pages self uaid srchs =
     Inr \<lparr>gen_request_data =
            \<lparr>user_app_id = uaid, searches = srchs,
             request_pagination = \<lparr>page = 1, per_page = default_page_size self\<rparr>\<rparr>,
          gen_page = 1,
          gen_finished = False\<rparr>"
  using assms by (simp add: start_pages_def Pagination_def uint32_def)

lemma start_pages_bad:
  assumes "\<not> uint32 (default_page_size self)"
  shows "start_pages self uaid srchs = Inl ValueError"
  using assms by (simp add: start_pages_def Pagination_def)

lemma consume_generator_bad_page_size:
  assumes "\<not> uint32 (default_page_size self)"
  shows "consume_generator endpoint (list_all_pages_generator self uaid srchs, trace) =
     Some ([], Some ValueError, trace)"
  by (simp add: consume_generator_def list_all_pages_generator_def start_pages_bad [OF assms])

section \<open>Properties of the session constructor and of the annotation builder\<close>

text \<open>
  C7.  Constructing a session raises an error exactly when the metric is neither
  \<^verbatim>\<open>"cosine"\<close> nor \<^verbatim>\<open>"euclidean"\<close>, as for \<^verbatim>\<open>"manhattan"\<close>; the error is the
  \<^verbatim>\<open>UserError\<close> of the metric check.  A session constructed with \<^verbatim>\<open>"cosine"\<close> has the
  distance \<^verbatim>\<open>COSINE_DISTANCE\<close>, one constructed with \<^verbatim>\<open>"euclidean"\<close> has
  \<^verbatim>\<open>EUCLIDEAN_DISTANCE\<close>.
\<close>

theorem Search_init_metric:
  "(isl (Search_init uid aid top_k m) \<longleftrightarrow> m \<noteq> ''cosine'' \<and> m \<noteq> ''euclidean'') \<and>
   (isl (Search_init uid aid top_k m) \<longleftrightarrow>
      Search_init uid aid top_k m =
        Inl (UserError ''Metric should be either cosine or euclidean'' None)) \<and>
   Search_init uid aid top_k ''manhattan'' =
     Inl (UserError ''Metric should be either cosine or euclidean'' None) \<and>
   map_sum id metric_distance (Search_init uid aid top_k ''cosine'') = Inr ''COSINE_DISTANCE'' \<and>
   map_sum id metric_distance (Search_init uid aid top_k ''euclidean'') = Inr ''EUCLIDEAN_DISTANCE''"
  by (simp add: Search_init_def)

text \<open>
  C9.  Building an annotation from the empty item gives the empty annotation: its data
  is unset, so no data field is populated; the session is left as it was.
\<close>

theorem get_annot_proto_empty:
  "get_annot_proto self [] = (Inr (Annotation None), self) \<and>
   populated_fields (Annotation None) = []"
  by (simp add: get_annot_proto_def populated_fields_def)

section \<open>Properties of the schema\<close>

text \<open>
  C4.  The value of \<^verbatim>\<open>geo_point\<close> is accepted exactly when it is a dictionary with the
  three keys \<^verbatim>\<open>longitude\<close>, \<^verbatim>\<open>latitude\<close> and \<^verbatim>\<open>geo_limit\<close> and no other, the
  first two floats and the third an integer (an \<^verbatim>\<open>int\<close>; a \<^verbatim>\<open>bool\<close> where the type
  check of the package lets it pass for one).  An item with only the key
  \<^verbatim>\<open>geo_point\<close> is valid exactly when that value is accepted, and no valid item holds a
  \<^verbatim>\<open>geo_point\<close> value that is not.
\<close>

theorem geo_point_validation:
  "(is_valid b geo_point_schema v \<longleftrightarrow>
      (\<exists>kvs x y l. v = PyDict kvs \<and> distinct (map fst kvs) \<and>
         set kvs = {(''longitude'', PyFloat x), (''latitude'', PyFloat y), (''geo_limit'', l)} \<and>
         ((\<exists>i. l = PyInt i) \<or> (b \<and> (\<exists>t. l = PyBool t))))) \<and>
   (is_valid b (rank_filter_item_schema b) (PyDict [(''geo_point'', v)]) \<longleftrightarrow>
      is_valid b geo_point_schema v) \<and>
   (\<forall>kvs. is_valid b (rank_filter_item_schema b) (PyDict kvs) \<and> (''geo_point'', v) \<in> set kvs \<longrightarrow>
      is_valid b geo_point_schema v)"
proof (intro conjI allI impI)
  show "is_valid b geo_point_schema v \<longleftrightarrow>
      (\<exists>kvs x y l. v = PyDict kvs \<and> distinct (map fst kvs) \<and>
         set kvs = {(''longitude'', PyFloat x), (''latitude'', PyFloat y), (''geo_limit'', l)} \<and>
         ((\<exists>i. l = PyInt i) \<or> (b \<and> (\<exists>t. l = PyBool t))))"
    by (rule is_valid_geo_point_schema)
  show "is_valid b (rank_filter_item_schema b) (PyDict [(''geo_point'', v)]) \<longleftrightarrow>
      is_valid b geo_point_schema v"
    by (rule item_single_geo_point)
  show "is_valid b geo_point_schema v"
    if "is_valid b (rank_filter_item_schema b) (PyDict kvs) \<and> (''geo_point'', v) \<in> set kvs" for kvs
    using that item_geo_point by (elim conjE)
qed

text \<open>
  The item of the test suite is valid; one more key, or an integer longitude, is rejected.
\<close>

theorem geo_point_validation_witness:
  "is_valid False (rank_filter_item_schema False)
     (PyDict [(''geo_point'', PyDict [(''longitude'', PyFloat (-29)), (''latitude'', PyFloat 40),
        (''geo_limit'', PyInt 10)])]) \<and>
   is_valid False geo_point_schema
     (PyDict [(''longitude'', PyFloat (-29)), (''latitude'', PyFloat 40), (''geo_limit'', PyInt 10)]) \<and>
   \<not> is_valid False geo_point_schema
     (PyDict [(''longitude'', PyFloat (-29)), (''latitude'', PyFloat 40), (''geo_limit'', PyInt 10),
        (''extra'', PyInt 1)]) \<and>
   \<not> is_valid False geo_point_schema
     (PyDict [(''longitude'', PyInt (-29)), (''latitude'', PyFloat 40), (''geo_limit'', PyInt 10)])"
proof -
  let ?v = "PyDict [(''longitude'', PyFloat (-29)), (''latitude'', PyFloat 40), (''geo_limit'', PyInt 10)]"
  have item: "is_valid False (rank_filter_item_schema False) (PyDict [(''geo_point'', ?v)])"
    by (simp add: is_valid_def rank_filter_item_schema_def geo_point_schema_def)
  have "(''geo_point'', ?v) \<in> set [(''geo_point'', ?v)]" by simp
  with item geo_point_validation [of False ?v] have "is_valid False geo_point_schema ?v"
    by blast
  with item show ?thesis
    by (simp add: is_valid_def geo_point_schema_def)
qed




text \<open>
  C5.  A concept whose name is \<^verbatim>\<open>dog\<close> followed by a newline passes the check of a
  single concept, and a filter holding it passes validation, although the newline is
  neither alphanumeric nor a dash or an underscore: \<^verbatim>\<open>$\<close> matches before a final
  newline.
\<close>

theorem concept_name_trailing_newline:
  "concept_item_ok b (PyDict [(''name'', PyStr (''dog'' @ [newline]))]) = Some True \<and>
   is_valid b (get_schema b)
     (PyList [PyDict [(''concepts'', PyList [PyDict [(''name'', PyStr (''dog'' @ [newline]))]])]]) \<and>
   \<not> in_cls alnum newline \<and> \<not> in_cls dash_underscore newline"
  by (simp add: is_valid_def get_schema_def rank_filter_item_schema_def concepts_schema_def
        all_concepts_ok_def concept_item_ok_def concept_schema_def len_def name_pattern_def
        name_body_def Plus_def alnum_def dash_underscore_def in_cls_def in_range_def newline_def)

text \<open>
  C6.  A list of items of which each has only recognized keys with conforming values (and
  is a dictionary, with distinct keys) passes validation; a list with an item that has
  a key other than the six recognized ones fails.
\<close>

theorem recognized_keys_validation:
  "(list_all spec_query_item items \<longrightarrow> is_valid b (get_schema b) (PyList items)) \<and>
   (\<forall>kvs k v. PyDict kvs \<in> set items \<and> (k, v) \<in> set kvs \<and> k \<notin> set recognized_keys \<longrightarrow>
      \<not> is_valid b (get_schema b) (PyList items))"
proof (intro conjI allI impI)
  assume "list_all spec_query_item items"
  then have "\<forall>item\<in>set items. is_valid b (rank_filter_item_schema b) item"
    unfolding list_all_iff using spec_query_item_valid by blast
  then show "is_valid b (get_schema b) (PyList items)"
    unfolding is_valid_get_schema by simp
next
  fix kvs k v
  assume a: "PyDict kvs \<in> set items \<and> (k, v) \<in> set kvs \<and> k \<notin> set recognized_keys"
  then have "fst (k, v) \<notin> {''image_url'', ''image_bytes'', ''text_raw'', ''metadata'', ''geo_point'', ''concepts''}"
    by (simp add: recognized_keys_def)
  with a have "\<not> is_valid b (rank_filter_item_schema b) (PyDict kvs)"
    using item_unknown_key [of "(k, v)" kvs b] by (elim conjE) simp
  with a show "\<not> is_valid b (get_schema b) (PyList items)"
    unfolding is_valid_get_schema by blast
qed

text \<open>
  Three conforming items, taken from the test suite, that use all six keys; and an item
  with the key \<^verbatim>\<open>concept_id\<close>.
\<close>

theorem recognized_keys_validation_witness:
  "list_all spec_query_item
     [PyDict [(''concepts'', PyList [PyDict [(''name'', PyStr ''dog''), (''value'', PyInt 1)]])],
      PyDict [(''geo_point'', PyDict [(''longitude'', PyFloat (-29)), (''latitude'', PyFloat 40),
                (''geo_limit'', PyInt 10)])],
      PyDict [(''image_url'', PyStr ''https://samples.clarifai.com/dog.tiff''),
              (''text_raw'', PyStr ''dog''), (''metadata'', PyDict []), (''image_bytes'', PyBytes ''x'')]] \<and>
   is_valid False (get_schema False) (PyList
     [PyDict [(''concepts'', PyList [PyDict [(''name'', PyStr ''dog''), (''value'', PyInt 1)]])],
      PyDict [(''geo_point'', PyDict [(''longitude'', PyFloat (-29)), (''latitude'', PyFloat 40),
                (''geo_limit'', PyInt 10)])],
      PyDict [(''image_url'', PyStr ''https://samples.clarifai.com/dog.tiff''),
              (''text_raw'', PyStr ''dog''), (''metadata'', PyDict []), (''image_bytes'', PyBytes ''x'')]]) \<and>
   \<not> is_valid False (get_schema False) (PyList [PyDict [(''concept_id'', PyStr ''deer'')]])"
proof -
  let ?items = "[PyDict [(''concepts'', PyList [PyDict [(''name'', PyStr ''dog''), (''value'', PyInt 1)]])],
      PyDict [(''geo_point'', PyDict [(''longitude'', PyFloat (-29)), (''latitude'', PyFloat 40),
                (''geo_limit'', PyInt 10)])],
      PyDict [(''image_url'', PyStr ''https://samples.clarifai.com/dog.tiff''),
              (''text_raw'', PyStr ''dog''), (''metadata'', PyDict []), (''image_bytes'', PyBytes ''x'')]]"
  have name: "spec_name ''dog''"
    by (simp add: spec_name_def dash_underscore_def alnum_def in_cls_def in_range_def)
  have a: "list_all spec_query_item ?items"
    by (simp add: spec_item_field_def spec_url_def name)
  have b: "PyDict [(''concept_id'', PyStr ''deer'')] \<in> set [PyDict [(''concept_id'', PyStr ''deer'')]] \<and>
      (''concept_id'', PyStr ''deer'') \<in> set [(''concept_id'', PyStr ''deer'')] \<and>
      ''concept_id'' \<notin> set recognized_keys"
    by (simp add: recognized_keys_def)
  from recognized_keys_validation [of ?items False] a
  have c: "is_valid False (get_schema False) (PyList ?items)"
    by (elim conjE) (erule mp)
  from recognized_keys_validation [of "[PyDict [(''concept_id'', PyStr ''deer'')]]" False,
      THEN conjunct2, rule_format, OF b]
  have d: "\<not> is_valid False (get_schema False) (PyList [PyDict [(''concept_id'', PyStr ''deer'')]])" .
  from a c d show ?thesis by (intro conjI)
qed

section \<open>Properties of pagination\<close>

text \<open>
  C2.  Let the session's page size fit the unsigned 32-bit field of the pagination, and
  so the page numbers up to \<open>n + 1\<close>.  Let the responses to the requests for pages 1 to
  \<open>n\<close> be successful and hold a \<^verbatim>\<open>hits\<close> field, and the response for page \<open>n + 1\<close> be
  successful and hold none.  Then a loop over the page sequence of a fresh generator
  ends, after yielding exactly the \<open>n\<close> responses of pages 1 to \<open>n\<close> and issuing exactly
  the \<open>n + 1\<close> requests for pages 1, 2, ..., \<open>n + 1\<close>, each with the session's page size.
\<close>

theorem pagination_pages:
  fixes self :: search and uaid :: "string \<times> string" and srchs :: "search_proto list"
    and endpoint :: endpoint and n :: nat
  defines "req \<equiv> (\<lambda>p. \<lparr>user_app_id = uaid, searches = srchs,
      request_pagination = \<lparr>page = p, per_page = default_page_size self\<rparr>\<rparr>)"
  assumes page_size: "uint32 (default_page_size self)"
    and page_numbers: "uint32 (int (n + 1))"
    and hits: "\<forall>p\<in>{1..n}. status_code (endpoint (req p)) = SUCCESS \<and>
        ''hits'' \<in> set (map fst (dict_response (endpoint (req p))))"
    and last_ok: "status_code (endpoint (req (n + 1))) = SUCCESS"
    and last_no_hits: "''hits'' \<notin> set (map fst (dict_response (endpoint (req (n + 1)))))"
  shows "consume_generator endpoint (list_all_pages_generator self uaid srchs, []) =
     Some (map (\<lambda>p. endpoint (req p)) [1..<n + 1], None, map req [1..<n + 2])"
proof -
  define g where "g = \<lparr>gen_request_data = req 1, gen_page = 1, gen_finished = False\<rparr>"
  have start: "start_pages self uaid srchs = Inr g"
    unfolding g_def req_def by (rule start_pages_ok [OF page_size])
  have c: "n + 1 = 1 + n" by simp
  have r: "page_request (gen_request_data g) (gen_page g + i) = req (1 + i)" for i
    by (simp add: g_def page_request_def req_def)
  have "consume endpoint (g, []) [] =
     Some ([] @ map (\<lambda>i. endpoint (page_request (gen_request_data g) (gen_page g + i))) [0..<n],
           None,
           [] @ map (\<lambda>i. page_request (gen_request_data g) (gen_page g + i)) [0..<Suc n])"
  proof (rule consume_pages)
    show "\<not> gen_finished g" by (simp add: g_def)
    show "\<forall>i<n. status_code (endpoint (page_request (gen_request_data g) (gen_page g + i))) = SUCCESS \<and>
           ''hits'' \<in> set (map fst (dict_response (endpoint (page_request (gen_request_data g) (gen_page g + i)))))"
      unfolding r
    proof (intro allI impI)
      fix i assume "i < n"
      then have "1 + i \<in> {1..n}" by simp
      then show "status_code (endpoint (req (1 + i))) = SUCCESS \<and>
           ''hits'' \<in> set (map fst (dict_response (endpoint (req (1 + i)))))"
        by (rule hits [rule_format])
    qed
    show "status_code (endpoint (page_request (gen_request_data g) (gen_page g + n))) = SUCCESS"
      unfolding r using last_ok unfolding c .
    show "''hits'' \<notin> set (map fst (dict_response (endpoint (page_request (gen_request_data g) (gen_page g + n)))))"
      unfolding r using last_no_hits unfolding c .
  qed
  moreover have "map req [1..<n + 2] = map (\<lambda>i. req (1 + i)) [0..<Suc n]"
    using upt_shift [of req "Suc n"] by simp
  ultimately have "consume endpoint (g, []) [] =
     Some (map (\<lambda>p. endpoint (req p)) [1..<n + 1], None, map req [1..<n + 2])"
    unfolding r by (simp only: upt_shift [of "\<lambda>p. endpoint (req p)" n] append_Nil)
  then show ?thesis
    by (simp add: consume_generator_def list_all_pages_generator_def start)
qed

text \<open>Pages 1 and 2 with hits, page 3 without: two pages yielded, three requests issued.\<close>

theorem pagination_pages_witness:
  "consume_generator example_endpoint
     (list_all_pages_generator example_session (''user'', ''app'') [], []) =
     Some ([example_page True, example_page True], None,
           [example_request 1, example_request 2, example_request 3])"
proof -
  have s: "uint32 (default_page_size example_session)" "uint32 (int (2 + 1))"
    by (simp_all add: uint32_def example_session_def)
  have h: "\<forall>p\<in>{1..2}. status_code (example_endpoint
        \<lparr>user_app_id = (''user'', ''app''), searches = [],
         request_pagination = \<lparr>page = p, per_page = default_page_size example_session\<rparr>\<rparr>) = SUCCESS \<and>
      ''hits'' \<in> set (map fst (dict_response (example_endpoint
        \<lparr>user_app_id = (''user'', ''app''), searches = [],
         request_pagination = \<lparr>page = p, per_page = default_page_size example_session\<rparr>\<rparr>)))"
    by (simp add: example_endpoint_def example_page_def)
  have l: "status_code (example_endpoint
        \<lparr>user_app_id = (''user'', ''app''), searches = [],
         request_pagination = \<lparr>page = 2 + 1, per_page = default_page_size example_session\<rparr>\<rparr>) = SUCCESS"
    "''hits'' \<notin> set (map fst (dict_response (example_endpoint
        \<lparr>user_app_id = (''user'', ''app''), searches = [],
         request_pagination = \<lparr>page = 2 + 1, per_page = default_page_size example_session\<rparr>\<rparr>)))"
    by (simp_all add: example_endpoint_def example_page_def)
  have u: "[1..<2 + 1] = [1, 2::nat]" "[1..<2 + 2] = [1, 2, 3::nat]"
    by (simp_all add: upt_rec)
  have e: "example_endpoint (example_request 1) = example_page True"
    "example_endpoint (example_request 2) = example_page True"
    by (simp_all add: example_endpoint_def example_request_def)
  have d: "default_page_size example_session = 1"
    by (simp add: example_session_def)
  show ?thesis
    using pagination_pages [OF s h l]
    unfolding u d list.map example_request_def [symmetric] e .
qed

text \<open>
  With the page size \<open>- 1\<close> the same endpoint, whose pages 1 and 2 have hits and whose
  page 3 has none, is never called: the first \<^verbatim>\<open>next\<close> raises \<^verbatim>\<open>ValueError\<close>, no
  page is yielded and no request issued.
\<close>

theorem negative_page_size_counterexample:
  "consume_generator example_endpoint
     (list_all_pages_generator (example_session\<lparr>default_page_size := - 1\<rparr>) (''user'', ''app'') [], []) =
     Some ([], Some ValueError, []) \<and>
   ''hits'' \<in> set (map fst (dict_response (example_endpoint
     \<lparr>user_app_id = (''user'', ''app''), searches = [],
      request_pagination = \<lparr>page = 1, per_page = - 1\<rparr>\<rparr>))) \<and>
   ''hits'' \<in> set (map fst (dict_response (example_endpoint
     \<lparr>user_app_id = (''user'', ''app''), searches = [],
      request_pagination = \<lparr>page = 2, per_page = - 1\<rparr>\<rparr>))) \<and>
   ''hits'' \<notin> set (map fst (dict_response (example_endpoint
     \<lparr>user_app_id = (''user'', ''app''), searches = [],
      request_pagination = \<lparr>page = 3, per_page = - 1\<rparr>\<rparr>)))"
proof -
  have "\<not> uint32 (default_page_size (example_session\<lparr>default_page_size := - 1\<rparr>))"
    by (simp add: uint32_def)
  then have "consume_generator example_endpoint
     (list_all_pages_generator (example_session\<lparr>default_page_size := - 1\<rparr>) (''user'', ''app'') [], []) =
     Some ([], Some ValueError, [])"
    by (rule consume_generator_bad_page_size)
  then show ?thesis
    by (simp add: example_endpoint_def example_page_def)
qed

text \<open>
  C8.  When the response to the request of an unfinished generator has a status code
  that is not success, whatever its fields, the step raises the exception holding that
  response; the request is the only one issued, the generator is finished, so that a
  later \<^verbatim>\<open>next\<close> stops without a request, and a loop over the sequence ends with that
  exception and the pages yielded before.
\<close>

theorem listing_failed:
  assumes "\<not> gen_finished g"
    and "status_code (endpoint (page_request (gen_request_data g) (gen_page g))) \<noteq> SUCCESS"
  shows "fst (gen_next endpoint (g, trace)) =
       Raise (Listing_failed (endpoint (page_request (gen_request_data g) (gen_page g)))) \<and>
     snd (snd (gen_next endpoint (g, trace))) = trace @ [page_request (gen_request_data g) (gen_page g)] \<and>
     gen_finished (fst (snd (gen_next endpoint (g, trace)))) \<and>
     gen_next endpoint (fst (snd (gen_next endpoint (g, trace))), trace') =
       (StopIteration, fst (snd (gen_next endpoint (g, trace))), trace') \<and>
     consume endpoint (g, trace) pages =
       Some (pages, Some (Listing_failed (endpoint (page_request (gen_request_data g) (gen_page g)))),
             trace @ [page_request (gen_request_data g) (gen_page g)])"
proof -
  note step = gen_next_failed [where g = g and endpoint = endpoint and trace = trace, OF assms]
  have "consume endpoint (g, trace) pages =
       Some (pages, Some (Listing_failed (endpoint (page_request (gen_request_data g) (gen_page g)))),
             trace @ [page_request (gen_request_data g) (gen_page g)])"
    by (subst consume.simps) (simp add: step)
  then show ?thesis
    by (simp add: step gen_next_finished)
qed

text \<open>A failed response is raised although it holds a \<^verbatim>\<open>hits\<close> field.\<close>

theorem listing_failed_witness:
  "fst (gen_next (\<lambda>req. example_failure) (example_generator, [])) =
     Raise (Listing_failed example_failure) \<and>
   snd (snd (gen_next (\<lambda>req. example_failure) (example_generator, []))) = [example_request 1] \<and>
   consume (\<lambda>req. example_failure) (example_generator, []) [] =
     Some ([], Some (Listing_failed example_failure), [example_request 1]) \<and>
   start_pages example_session (''user'', ''app'') [] = Inr example_generator \<and>
   ''hits'' \<in> set (map fst (dict_response example_failure))"
proof -
  have a: "\<not> gen_finished example_generator"
    by (simp add: example_generator_def)
  have b: "status_code ((\<lambda>req. example_failure)
      (page_request (gen_request_data example_generator) (gen_page example_generator))) \<noteq> SUCCESS"
    by (simp add: example_failure_def SUCCESS_def)
  have r: "page_request (gen_request_data example_generator) (gen_page example_generator) =
      example_request 1"
    by (simp add: example_generator_def page_request_def example_request_def)
  have s: "start_pages example_session (''user'', ''app'') [] = Inr example_generator"
    by (simp add: start_pages_def Pagination_def uint32_def example_session_def
        example_generator_def example_request_def)
  show ?thesis
    using listing_failed [where g = example_generator and endpoint = "\<lambda>req. example_failure"
        and trace = "[]" and trace' = "[]" and pages = "[]", OF a b]
    by (simp add: r s example_failure_def)
qed

section \<open>Properties of the query\<close>

text \<open>
  C10.  Called with no argument, \<^verbatim>\<open>query\<close> takes \<^verbatim>\<open>[{}]\<close> for the ranks and for the
  filters; this default passes validation, and the call raises nothing: it returns the
  page generator over a request with one search, of the session's metric, whose query
  has exactly one rank and one filter, each around the empty annotation, which has no
  populated data field.
\<close>

theorem query_defaults:
  "validate b (get_schema b) default_items = Inr () \<and>
   query b self None None trace =
     (Inr (list_all_pages_generator self (user_id self, app_id self)
            [\<lparr>search_query =
                \<lparr>ranks = [Rank (Annotation None)], filters = [Filter (Annotation None)]\<rparr>,
              metric = metric_distance self\<rparr>]),
      self, trace) \<and>
   populated_fields (Annotation None) = []"
proof -
  have it: "py_iter default_items = Some [PyDict []]"
    by (simp add: default_items_def)
  have ga: "get_annot_protos s [PyDict []] = (Inr [Annotation None], s)" for s
    by (simp add: get_annot_proto_def)
  show ?thesis
    by (simp add: validate_default_items query_def arg_or_default_def it ga populated_fields_def
        del: get_annot_protos.simps)
qed

text \<open>
  C3.  When validation of the ranks fails, or validation of the ranks passes and
  validation of the filters fails, \<^verbatim>\<open>query\<close> raises the \<^verbatim>\<open>UserError\<close> that holds the
  validation error; it issues no request, the trace of requests being as before the
  call, and the session is unchanged.
\<close>

theorem query_invalid_input:
  assumes "validate b (get_schema b) (arg_or_default ranks_arg) = Inl err \<or>
      (validate b (get_schema b) (arg_or_default ranks_arg) = Inr () \<and>
       validate b (get_schema b) (arg_or_default filters_arg) = Inl err)"
  shows "query b self ranks_arg filters_arg trace =
     (Inl (UserError ''Invalid rank or filter input: '' (Some err)), self, trace)"
  using assms by (auto simp: query_def Let_def)

text \<open>
  The filter with an extra key under \<^verbatim>\<open>geo_point\<close>, taken from the test suite, and
  ranks that are no list.
\<close>

theorem query_invalid_input_witness:
  "query False example_session None
     (Some (PyList [PyDict [(''geo_point'',
        PyDict [(''longitude'', PyFloat (-29)), (''latitude'', PyFloat 40),
                (''geo_limit'', PyInt 10), (''extra'', PyInt 1)])]])) [] =
     (Inl (UserError ''Invalid rank or filter input: '' (Some SchemaError)), example_session, []) \<and>
   query False example_session (Some (PyDict [])) None [] =
     (Inl (UserError ''Invalid rank or filter input: '' (Some SchemaUnexpectedTypeError)),
      example_session, [])"
proof -
  let ?f = "PyList [PyDict [(''geo_point'',
        PyDict [(''longitude'', PyFloat (-29)), (''latitude'', PyFloat 40),
                (''geo_limit'', PyInt 10), (''extra'', PyInt 1)])]]"
  have r: "validate False (get_schema False) (arg_or_default None) = Inr ()"
    by (simp add: arg_or_default_def validate_default_items)
  have f: "validate False (get_schema False) (arg_or_default (Some ?f)) = Inl SchemaError"
    by (simp add: arg_or_default_def get_schema_def rank_filter_item_schema_def geo_point_schema_def)
  have d: "validate False (get_schema False) (arg_or_default (Some (PyDict []))) =
      Inl SchemaUnexpectedTypeError"
    by (simp add: arg_or_default_def get_schema_def)
  from r f have 1: "validate False (get_schema False) (arg_or_default None) = Inl SchemaError \<or>
      (validate False (get_schema False) (arg_or_default None) = Inr () \<and>
       validate False (get_schema False) (arg_or_default (Some ?f)) = Inl SchemaError)"
    by (intro disjI2 conjI)
  from d have 2: "validate False (get_schema False) (arg_or_default (Some (PyDict []))) =
        Inl SchemaUnexpectedTypeError \<or>
      (validate False (get_schema False) (arg_or_default (Some (PyDict []))) = Inr () \<and>
       validate False (get_schema False) (arg_or_default None) = Inl SchemaUnexpectedTypeError)"
    by (intro disjI1)
  show ?thesis
    using query_invalid_input [OF 1, of example_session "[]"]
      query_invalid_input [OF 2, of example_session "[]"]
    by (intro conjI)
qed

end
